theory Spec2Isabelle
  imports Main "HOL-Library.Char_ord" "HOL-Library.List_Lexorder"
begin

section \<open>Strings and bytes\<close>

text \<open>
  Paths, command words and file contents are \<open>string\<close>s (lists of 8-bit characters).
  Python compares \<open>str\<close> values lexicographically by code point; the orders of
  \<open>Char_ord\<close> and \<open>List_Lexorder\<close> are that order on such lists.
\<close>

definition NL :: char where
  "NL = CHR 0x0A"

definition QUOTE :: char where
  "QUOTE = CHR 0x27"

text \<open>\<^verbatim>\<open>sep.join(xs)\<close> of Python.\<close>

fun join :: "string \<Rightarrow> string list \<Rightarrow> string" where
  "join sep [] = []"
| "join sep [x] = x"
| "join sep (x # y # ys) = x @ sep @ join sep (y # ys)"

text \<open>\<^verbatim>\<open>s.startswith(p)\<close> of Python.\<close>

fun startswith :: "string \<Rightarrow> string \<Rightarrow> bool" where
  "startswith s [] = True"
| "startswith [] (p # ps) = False"
| "startswith (c # cs) (p # ps) = (c = p \<and> startswith cs ps)"

text \<open>\<^verbatim>\<open>needle in hay\<close> of Python, for \<open>str\<close> and \<open>bytes\<close>: a contiguous occurrence.\<close>

fun contains :: "string \<Rightarrow> string \<Rightarrow> bool" where
  "contains needle [] = (needle = [])"
| "contains needle (c # cs) = (startswith (c # cs) needle \<or> contains needle cs)"

text \<open>\<^verbatim>\<open>bytes.upper()\<close>: the ASCII letters a to z become A to Z, every other byte stays.\<close>

definition upper_byte :: "char \<Rightarrow> char" where
  "upper_byte c =
     (if (97::nat) \<le> of_char c \<and> of_char c \<le> (122::nat)
      then char_of (of_char c - (32::nat)) else c)"

definition upper :: "string \<Rightarrow> string" where
  "upper s = map upper_byte s"

text \<open>Decimal rendering of a counter, as an f-string renders an \<open>int\<close>.\<close>

definition digit_char :: "nat \<Rightarrow> char" where
  "digit_char d = char_of (48 + d)"

fun show_nat :: "nat \<Rightarrow> string" where
  "show_nat n = (if n < 10 then [digit_char n] else show_nat (n div 10) @ [digit_char (n mod 10)])"

declare show_nat.simps [simp del]

section \<open>Glob patterns\<close>

text \<open>
  Modelled from the spec: the pattern matcher that \<open>BaseCheck.filter\<close> of
  \<^verbatim>\<open>precommitlib/lib.py\<close> calls is not part of the sources at hand. The spec asks for
  "standard shell-style wildcard matching (\<open>*\<close>, \<open>?\<close>, character classes) applied to the
  whole relative path". A pattern is read into tokens; a \<open>[\<close> with no closing \<open>]\<close> is an
  ordinary character, \<open>[!...]\<close> negates, \<open>a-z\<close> inside a class is a range.
\<close>

datatype glob_token = Star | AnyChar | Lit char | CharClass bool string

text \<open>The members of a class up to its closing bracket, and what follows the bracket.\<close>

fun split_class :: "string \<Rightarrow> (string \<times> string) option" where
  "split_class [] = None"
| "split_class (c # cs) =
     (if c = CHR '']'' then Some ([], cs)
      else (case split_class cs of None \<Rightarrow> None | Some (body, rest) \<Rightarrow> Some (c # body, rest)))"

text \<open>A class body: an optional \<open>!\<close>, then members, where a leading \<open>]\<close> is a member.\<close>

definition read_class :: "string \<Rightarrow> (bool \<times> string \<times> string) option" where
  "read_class s =
     (let neg = startswith s ''!'';
          s1 = (if neg then tl s else s)
      in (case s1 of
            [] \<Rightarrow> None
          | c # cs \<Rightarrow>
              (if c = CHR '']''
               then (case split_class cs of None \<Rightarrow> None
                     | Some (body, rest) \<Rightarrow> Some (neg, c # body, rest))
               else (case split_class (c # cs) of None \<Rightarrow> None
                     | Some (body, rest) \<Rightarrow> Some (neg, body, rest)))))"

fun class_member :: "char \<Rightarrow> string \<Rightarrow> bool" where
  "class_member c [] = False"
| "class_member c (lo # m # hi # rest) =
     (if m = CHR ''-''
      then ((of_char lo :: nat) \<le> of_char c \<and> (of_char c :: nat) \<le> of_char hi) \<or> class_member c rest
      else c = lo \<or> class_member c (m # hi # rest))"
| "class_member c (x # rest) = (c = x \<or> class_member c rest)"

lemma split_class_shorter: "split_class s = Some (body, rest) \<Longrightarrow> length rest < length s"
  by (induction s arbitrary: body rest) (auto split: if_splits option.splits)

lemma read_class_shorter: "read_class s = Some (neg, body, rest) \<Longrightarrow> length rest < length s"
  by (cases s) (auto simp: read_class_def Let_def split: if_splits option.splits list.splits
      dest!: split_class_shorter)

function tokenize :: "string \<Rightarrow> glob_token list" where
  "tokenize [] = []"
| "tokenize (c # cs) =
     (if c = CHR ''*'' then Star # tokenize cs
      else if c = CHR ''?'' then AnyChar # tokenize cs
      else if c = CHR ''[''
      then (case read_class cs of
              None \<Rightarrow> Lit c # tokenize cs
            | Some (neg, body, rest) \<Rightarrow> CharClass neg body # tokenize rest)
      else Lit c # tokenize cs)"
  by pat_completeness auto
termination
  by (relation "measure length") (auto dest: read_class_shorter)

fun match_tokens :: "glob_token list \<Rightarrow> string \<Rightarrow> bool" where
  "match_tokens [] s = (s = [])"
| "match_tokens (Star # ts) [] = match_tokens ts []"
| "match_tokens (Star # ts) (c # cs) = (match_tokens ts (c # cs) \<or> match_tokens (Star # ts) cs)"
| "match_tokens (AnyChar # ts) [] = False"
| "match_tokens (AnyChar # ts) (c # cs) = match_tokens ts cs"
| "match_tokens (Lit x # ts) [] = False"
| "match_tokens (Lit x # ts) (c # cs) = (c = x \<and> match_tokens ts cs)"
| "match_tokens (CharClass neg body # ts) [] = False"
| "match_tokens (CharClass neg body # ts) (c # cs) =
     ((class_member c body \<noteq> neg) \<and> match_tokens ts cs)"

text \<open>\<^verbatim>\<open>fnmatch(path, pattern)\<close>: the whole path against the pattern.\<close>

definition fnmatch :: "string \<Rightarrow> string \<Rightarrow> bool" where
  "fnmatch path pattern = match_tokens (tokenize pattern) path"

section \<open>Checks: the filter of a Check\<close>

text \<open>
  Modelled from the spec: \<open>BaseCheck\<close> of \<^verbatim>\<open>precommitlib/lib.py\<close> is not part of the sources
  at hand; \<^verbatim>\<open>checks.py\<close> passes it the keyword arguments \<open>include\<close> and \<open>exclude\<close> and
  calls its \<open>filter\<close>. The spec: "return the subset of paths matching at least one include
  pattern AND matching no exclude pattern"; "Default include list, if empty, matches all paths
  (treated as \<open>["*"]\<close>); default exclude list, if empty, matches none".
\<close>

record base_check =
  include_patterns :: "string list"
  exclude_patterns :: "string list"

definition effective_include :: "base_check \<Rightarrow> string list" where
  "effective_include c = (if include_patterns c = [] then [''*''] else include_patterns c)"

definition filter_paths :: "base_check \<Rightarrow> string list \<Rightarrow> string list" where
  "filter_paths c paths =
     filter (\<lambda>path. list_ex (fnmatch path) (effective_include c)
                   \<and> \<not> list_ex (fnmatch path) (exclude_patterns c)) paths"

section \<open>Problems, the repository view and the gateway\<close>

datatype error = UsageError string | ConfigurationError string | UnexpectedFailure string

text \<open>
  \<open>Problem\<close> is declared in \<^verbatim>\<open>lib.py\<close>; \<^verbatim>\<open>checks.py\<close> builds it as \<open>Problem(autofix=...)\<close>
  and \<open>Problem("message")\<close>. Per the spec it carries an optional message and an optional
  autofix, the latter a command (an argument list) or a zero-argument callable; a callable is
  identified here by a number.
\<close>

datatype fix_action = FixCommand "string list" | FixCallable nat

record problem =
  message :: "string option"
  autofix :: "fix_action option"

record repository =
  staged :: "string list"
  staged_for_deletion :: "string list"
  unstaged :: "string list"

text \<open>
  The gateway (\<open>fs\<close>) is used by \<^verbatim>\<open>checks.py\<close> through \<open>fs.print\<close>, \<open>fs.open\<close> and \<open>fs.run\<close>.
  Its state is the history of what was run, as \<open>MockFilesystem.commands_run\<close> of
  \<^verbatim>\<open>tests.py\<close> records it, and the messages printed since the state was last cleared. Every
  command in the history is tagged with who issued it: a Check, an autofix, or the engine.
\<close>

datatype issuer = ByCheck | ByAutofix | ByEngine

datatype event = Ran issuer "string list" | Invoked nat

record gateway =
  events :: "event list"
  printed :: "string list"

fun commands_run :: "event list \<Rightarrow> string list list" where
  "commands_run [] = []"
| "commands_run (Ran who c # es) = c # commands_run es"
| "commands_run (Invoked k # es) = commands_run es"

fun engine_commands :: "event list \<Rightarrow> string list list" where
  "engine_commands [] = []"
| "engine_commands (Ran who c # es) =
     (if who = ByEngine then c # engine_commands es else engine_commands es)"
| "engine_commands (Invoked k # es) = engine_commands es"

text \<open>
  What lies outside the program: how a command reacts (it cannot be launched, or it gives
  a return code and some output), what a file holds (or that it cannot be opened), both as
  functions of the history so far; and the order in which Python iterates over a set of
  strings, which the program does not control.
\<close>

record env =
  proc :: "event list \<Rightarrow> string list \<Rightarrow> error + int \<times> string list"
  file_bytes :: "event list \<Rightarrow> string \<Rightarrow> error + string"
  set_order :: "string list \<Rightarrow> string list"

definition fs_print :: "string \<Rightarrow> gateway \<Rightarrow> gateway" where
  "fs_print msg g = g\<lparr>printed := printed g @ [msg]\<rparr>"

definition fs_open :: "env \<Rightarrow> string \<Rightarrow> gateway \<Rightarrow> error + string" where
  "fs_open e path g = file_bytes e (events g) path"

definition fs_run :: "env \<Rightarrow> issuer \<Rightarrow> string list \<Rightarrow> gateway \<Rightarrow> error + int \<times> gateway" where
  "fs_run e who c g =
     (case proc e (events g) c of
        Inl err \<Rightarrow> Inl err
      | Inr (rc, out) \<Rightarrow> Inr (rc, g\<lparr>events := events g @ [Ran who c], printed := printed g @ out\<rparr>))"

section \<open>The checks of checks.py\<close>

subsection \<open>NoStagedAndUnstagedChanges\<close>

text \<open>
  \<^verbatim>\<open>both = set(repository.staged).intersection(set(repository.unstaged))\<close>: the set is kept
  as a list without repetitions; \<open>list(both)\<close> is that list in the iteration order of the set.
  The include and exclude patterns of the Check are an argument, as \<open>self\<close> is in the source.
\<close>

definition both_changed :: "repository \<Rightarrow> string list" where
  "both_changed repo = filter (\<lambda>p. p \<in> set (unstaged repo)) (remdups (staged repo))"

definition NoStagedAndUnstagedChanges_check ::
  "env \<Rightarrow> base_check \<Rightarrow> repository \<Rightarrow> gateway \<Rightarrow> problem option \<times> gateway" where
  "NoStagedAndUnstagedChanges_check e self repo g =
     (let both = both_changed repo in
      if both \<noteq> []
      then (Some \<lparr>message = None, autofix = Some (FixCommand ([''git'', ''add''] @ set_order e both))\<rparr>,
            fs_print (join [NL] (sort both)) g)
      else (None, g))"

subsection \<open>DoNotSubmit\<close>

definition DO_NOT_SUBMIT :: string where
  "DO_NOT_SUBMIT = ''DO NOT '' @ ''SUBMIT''"

fun DoNotSubmit_scan :: "env \<Rightarrow> gateway \<Rightarrow> string list \<Rightarrow> string list \<Rightarrow> error + string list" where
  "DoNotSubmit_scan e g bad_paths [] = Inr bad_paths"
| "DoNotSubmit_scan e g bad_paths (path # paths) =
     (case fs_open e path g of
        Inl err \<Rightarrow> Inl err
      | Inr content \<Rightarrow>
          DoNotSubmit_scan e g
            (if contains DO_NOT_SUBMIT (upper content) then bad_paths @ [path] else bad_paths) paths)"

definition DoNotSubmit_check ::
  "env \<Rightarrow> base_check \<Rightarrow> repository \<Rightarrow> gateway \<Rightarrow> error + problem option \<times> gateway" where
  "DoNotSubmit_check e self repo g =
     (case DoNotSubmit_scan e g [] (filter_paths self (staged repo)) of
        Inl err \<Rightarrow> Inl err
      | Inr bad_paths \<Rightarrow>
          if bad_paths \<noteq> []
          then Inr (Some \<lparr>message = Some (''file contains '' @ [QUOTE] @ DO_NOT_SUBMIT @ [QUOTE]),
                           autofix = None\<rparr>,
                    fs_print (join [NL] (sort bad_paths)) g)
          else Inr (None, g))"

subsection \<open>NoWhitespaceInFilePath\<close>

text \<open>
  \<^verbatim>\<open>c.isspace()\<close>, on the code point of the character: the whitespace of Unicode and the
  separators U+001C to U+001F. A character of a \<open>string\<close> is read as the code point of its
  number, so a path here holds code points below 256 only.
\<close>

definition isspace :: "int \<Rightarrow> bool" where
  "isspace n =
     ((9 \<le> n \<and> n \<le> 13) \<or> (28 \<le> n \<and> n \<le> 32) \<or> n = 133 \<or> n = 160 \<or> n = 5760
      \<or> (8192 \<le> n \<and> n \<le> 8202) \<or> n = 8232 \<or> n = 8233 \<or> n = 8239 \<or> n = 8287
      \<or> n = 12288)"

definition NoWhitespaceInFilePath_check ::
  "base_check \<Rightarrow> repository \<Rightarrow> gateway \<Rightarrow> problem option \<times> gateway" where
  "NoWhitespaceInFilePath_check self repo g =
     (let bad_paths = filter (\<lambda>path. list_ex (\<lambda>c. isspace (of_char c)) path)
                        (filter_paths self (staged repo)) in
      if bad_paths \<noteq> []
      then (Some \<lparr>message = Some ''file path contains whitespace'', autofix = None\<rparr>,
            fs_print (join [NL] (sort bad_paths)) g)
      else (None, g))"

subsection \<open>Command\<close>

record command =
  base :: base_check
  name :: string
  cmd :: "string list"
  fix_cmd :: "string list option"
  pass_files :: bool
  separately :: bool

text \<open>
  \<open>Command.__init__\<close>. \<open>super().__init__(**kwargs)\<close> receives \<open>include\<close> and \<open>exclude\<close>;
  \<open>fix=None\<close> is \<open>None\<close> here.
\<close>

definition Command_init ::
  "string \<Rightarrow> string list \<Rightarrow> string list option \<Rightarrow> bool \<Rightarrow> bool \<Rightarrow> string list \<Rightarrow> string list
     \<Rightarrow> error + command" where
  "Command_init nm c fx pf sep inc exc =
     (if sep = True \<and> pf = False
      then Inl (UsageError ''if `separately` is True, `pass_files` must also be True'')
      else Inr \<lparr>base = \<lparr>include_patterns = inc, exclude_patterns = exc\<rparr>,
                name = nm, cmd = c, fix_cmd = fx, pass_files = pf, separately = sep\<rparr>)"

text \<open>The loop of the \<open>separately\<close> branch: one run per path, \<open>problem\<close> is the flag.\<close>

fun run_separately ::
  "env \<Rightarrow> string list \<Rightarrow> string list \<Rightarrow> bool \<Rightarrow> gateway \<Rightarrow> error + bool \<times> gateway" where
  "run_separately e c [] problem g = Inr (problem, g)"
| "run_separately e c (path # paths) problem g =
     (case fs_run e ByCheck (c @ [path]) g of
        Inl err \<Rightarrow> Inl err
      | Inr (rc, g') \<Rightarrow> run_separately e c paths (if rc \<noteq> 0 then True else problem) g')"

definition Command_check ::
  "env \<Rightarrow> command \<Rightarrow> repository \<Rightarrow> gateway \<Rightarrow> error + problem option \<times> gateway" where
  "Command_check e self repo g =
     (if separately self
      then (case run_separately e (cmd self) (filter_paths (base self) (staged repo)) False g of
              Inl err \<Rightarrow> Inl err
            | Inr (problem, g') \<Rightarrow>
                if problem
                then Inr (Some \<lparr>message = None, autofix = map_option FixCommand (fix_cmd self)\<rparr>, g')
                else Inr (None, g'))
      else (let args = (if pass_files self then filter_paths (base self) (staged repo) else [])
            in (case fs_run e ByCheck (cmd self @ args) g of
                  Inl err \<Rightarrow> Inl err
                | Inr (rc, g') \<Rightarrow>
                    if rc \<noteq> 0
                    then Inr (Some \<lparr>message = None,
                                     autofix = (case fix_cmd self of
                                                  None \<Rightarrow> None
                                                | Some f \<Rightarrow> if f \<noteq> [] then Some (FixCommand (f @ args))
                                                            else None)\<rparr>, g')
                    else Inr (None, g'))))"

text \<open>\<open>PythonFormat\<close>, the factory that \<^verbatim>\<open>tests.py\<close> registers.\<close>

definition PythonFormat :: "string list \<Rightarrow> string list \<Rightarrow> string list \<Rightarrow> error + command" where
  "PythonFormat args inc exc =
     Command_init ''PythonFormat'' ([''black'', ''--check''] @ args) (Some ([''black''] @ args))
       True False ([''*.py''] @ inc) exc"

section \<open>The engine\<close>

text \<open>
  The Check variants: the four classes of \<^verbatim>\<open>checks.py\<close>, and a Check written by the user,
  given by its name, its \<open>is_fixable()\<close> and what its \<open>check\<close> finds and prints from the history
  and the repository view (it may also raise).
\<close>

datatype check =
    NoStagedAndUnstagedChanges base_check
  | DoNotSubmit base_check
  | NoWhitespaceInFilePath base_check
  | Command command
  | Custom string bool "event list \<Rightarrow> repository \<Rightarrow> error + problem option \<times> string list"

text \<open>
  \<open>get_name\<close> and \<open>is_fixable\<close>: \<open>Command\<close> and \<open>NoStagedAndUnstagedChanges\<close> define them in
  \<^verbatim>\<open>checks.py\<close>. Modelled from the spec: the defaults of \<open>BaseCheck\<close> (\<^verbatim>\<open>lib.py\<close>) are the
  name of the concrete type, and not fixable (\<^verbatim>\<open>tests.py\<close> counts two fixable Checks of four).
\<close>

fun get_name :: "check \<Rightarrow> string" where
  "get_name (NoStagedAndUnstagedChanges b) = ''NoStagedAndUnstagedChanges''"
| "get_name (DoNotSubmit b) = ''DoNotSubmit''"
| "get_name (NoWhitespaceInFilePath b) = ''NoWhitespaceInFilePath''"
| "get_name (Command c) = name c"
| "get_name (Custom n f body) = n"

fun is_fixable :: "check \<Rightarrow> bool" where
  "is_fixable (NoStagedAndUnstagedChanges b) = True"
| "is_fixable (DoNotSubmit b) = False"
| "is_fixable (NoWhitespaceInFilePath b) = False"
| "is_fixable (Command c) = (fix_cmd c \<noteq> None)"
| "is_fixable (Custom n f body) = f"

fun run_check :: "env \<Rightarrow> repository \<Rightarrow> check \<Rightarrow> gateway \<Rightarrow> error + problem option \<times> gateway" where
  "run_check e repo (NoStagedAndUnstagedChanges b) g = Inr (NoStagedAndUnstagedChanges_check e b repo g)"
| "run_check e repo (DoNotSubmit b) g = DoNotSubmit_check e b repo g"
| "run_check e repo (NoWhitespaceInFilePath b) g = Inr (NoWhitespaceInFilePath_check b repo g)"
| "run_check e repo (Command c) g = Command_check e c repo g"
| "run_check e repo (Custom n f body) g =
     (case body (events g) repo of
        Inl err \<Rightarrow> Inl err
      | Inr (res, out) \<Rightarrow> Inr (res, g\<lparr>printed := printed g @ out\<rparr>))"

text \<open>
  Modelled from the spec: \<open>Checklist\<close> and \<open>Precommit\<close> of \<^verbatim>\<open>lib.py\<close> are not part of the
  sources at hand; section 4.3 of the spec gives the two algorithms, \<^verbatim>\<open>tests.py\<close> the layout
  of the report. A registered Check may be marked slow; such a Check runs only when
  \<open>check_all\<close> is set.
\<close>

record entry =
  the_check :: check
  slow :: bool

record precommit =
  checks :: "entry list"
  check_all :: bool
  dry_run :: bool
  verbose :: bool

record run_state =
  checks_run :: nat
  fixable_checks_run :: nat
  problems_found :: nat
  problems_fixable :: nat
  problems_fixed :: nat
  report :: "string list"
  gw :: gateway

definition initial_state :: "gateway \<Rightarrow> run_state" where
  "initial_state g =
     \<lparr>checks_run = 0, fixable_checks_run = 0, problems_found = 0, problems_fixable = 0,
      problems_fixed = 0, report = [], gw = g\<rparr>"

text \<open>A printed message may hold several lines.\<close>

fun split_lines :: "string \<Rightarrow> string \<Rightarrow> string list" where
  "split_lines cur [] = [cur]"
| "split_lines cur (c # cs) = (if c = NL then cur # split_lines [] cs else split_lines (cur @ [c]) cs)"

definition header_line :: "string \<Rightarrow> string" where
  "header_line n = ''o--[ '' @ n @ '' ]''"

definition body_lines :: "string list \<Rightarrow> string list" where
  "body_lines msgs = map (\<lambda>l. ''|  '' @ l) (concat (map (split_lines []) msgs))"

text \<open>
  A section of the report: the header, what the Check printed, the message of the Problem
  when one is shown, the status, and an empty line.
\<close>

definition section_lines :: "string \<Rightarrow> string list \<Rightarrow> string option \<Rightarrow> string \<Rightarrow> string list" where
  "section_lines n printed_msgs msg status =
     [header_line n] @ body_lines (printed_msgs @ (case msg of None \<Rightarrow> [] | Some m \<Rightarrow> [m]))
       @ [header_line status, []]"

text \<open>
  The message of a Problem: the spec prints it "if present"; in the runs of \<^verbatim>\<open>tests.py\<close>,
  which are not verbose, the message of the \<open>DoNotSubmit\<close> Problem is not in the expected
  output, so it is shown in a verbose run only.
\<close>

definition shown_message :: "precommit \<Rightarrow> problem \<Rightarrow> string option" where
  "shown_message pc p = (if verbose pc then message p else None)"

text \<open>An autofix is there when it is not \<open>None\<close> and not an empty command.\<close>

fun has_autofix :: "problem \<Rightarrow> bool" where
  "has_autofix p =
     (case autofix p of
        None \<Rightarrow> False
      | Some (FixCommand c) \<Rightarrow> c \<noteq> []
      | Some (FixCallable k) \<Rightarrow> True)"

fun apply_autofix :: "env \<Rightarrow> fix_action \<Rightarrow> gateway \<Rightarrow> error + gateway" where
  "apply_autofix e (FixCommand c) g =
     (case fs_run e ByAutofix c g of Inl err \<Rightarrow> Inl err | Inr (rc, g') \<Rightarrow> Inr g')"
| "apply_autofix e (FixCallable k) g = Inr (g\<lparr>events := events g @ [Invoked k]\<rparr>)"

definition skipped :: "precommit \<Rightarrow> entry \<Rightarrow> bool" where
  "skipped pc en = (slow en \<and> \<not> check_all pc)"

subsection \<open>Check mode\<close>

definition check_step :: "env \<Rightarrow> precommit \<Rightarrow> repository \<Rightarrow> entry \<Rightarrow> run_state \<Rightarrow> error + run_state" where
  "check_step e pc repo en st =
     (if skipped pc en then Inr st
      else (case run_check e repo (the_check en) ((gw st)\<lparr>printed := []\<rparr>) of
              Inl err \<Rightarrow> Inl err
            | Inr (res, g1) \<Rightarrow>
                Inr (st\<lparr>checks_run := checks_run st + 1,
                        problems_found := problems_found st + (if res = None then 0 else 1),
                        problems_fixable := problems_fixable st +
                          (case res of None \<Rightarrow> 0
                           | Some p \<Rightarrow> if has_autofix p \<and> is_fixable (the_check en) then 1 else 0),
                        report := report st @
                          section_lines (get_name (the_check en)) (printed g1)
                            (case res of None \<Rightarrow> None | Some p \<Rightarrow> shown_message pc p)
                            (if res = None then ''passed!'' else ''failed!''),
                        gw := g1\<lparr>printed := []\<rparr>\<rparr>)))"

fun check_loop :: "env \<Rightarrow> precommit \<Rightarrow> repository \<Rightarrow> entry list \<Rightarrow> run_state \<Rightarrow> error + run_state" where
  "check_loop e pc repo [] st = Inr st"
| "check_loop e pc repo (en # ens) st =
     (case check_step e pc repo en st of
        Inl err \<Rightarrow> Inl err
      | Inr st' \<Rightarrow> check_loop e pc repo ens st')"

definition check_summary :: "run_state \<Rightarrow> string" where
  "check_summary st =
     ''Ran '' @ show_nat (checks_run st) @ '' checks. Detected '' @ show_nat (problems_found st)
       @ '' issues.''
       @ (if problems_fixable st > 0
          then '' Fix '' @ show_nat (problems_fixable st) @ '' of them with ''
                 @ [QUOTE] @ ''precommit fix'' @ [QUOTE] @ ''.''
          else [])"

text \<open>\<open>Precommit.check\<close>: the final state, and whether problems were found.\<close>

definition check_mode :: "env \<Rightarrow> precommit \<Rightarrow> repository \<Rightarrow> gateway \<Rightarrow> error + bool \<times> run_state" where
  "check_mode e pc repo g =
     (case check_loop e pc repo (checks pc) (initial_state g) of
        Inl err \<Rightarrow> Inl err
      | Inr st \<Rightarrow> Inr (problems_found st > 0, st\<lparr>report := report st @ [[], check_summary st]\<rparr>))"

subsection \<open>Fix mode\<close>

definition fix_step :: "env \<Rightarrow> precommit \<Rightarrow> repository \<Rightarrow> entry \<Rightarrow> run_state \<Rightarrow> error + run_state" where
  "fix_step e pc repo en st =
     (if skipped pc en then Inr st
      else (case run_check e repo (the_check en) ((gw st)\<lparr>printed := []\<rparr>) of
              Inl err \<Rightarrow> Inl err
            | Inr (res, g1) \<Rightarrow>
                (let st1 = st\<lparr>checks_run := checks_run st + 1,
                              fixable_checks_run := fixable_checks_run st +
                                (if is_fixable (the_check en) then 1 else 0),
                              gw := g1\<lparr>printed := []\<rparr>\<rparr>
                 in (case res of
                       None \<Rightarrow> Inr st1
                     | Some p \<Rightarrow>
                         (case autofix p of
                            None \<Rightarrow> Inr st1
                          | Some a \<Rightarrow>
                              if has_autofix p \<and> is_fixable (the_check en)
                              then (case (if dry_run pc then Inr g1 else apply_autofix e a g1) of
                                      Inl err \<Rightarrow> Inl err
                                    | Inr g2 \<Rightarrow>
                                        Inr (st1\<lparr>problems_found := problems_found st + 1,
                                                 problems_fixable := problems_fixable st + 1,
                                                 problems_fixed := problems_fixed st + 1,
                                                 report := report st @
                                                   section_lines (get_name (the_check en)) (printed g2)
                                                     (shown_message pc p)
                                                     (if dry_run pc then ''would fix'' else ''fixed!''),
                                                 gw := g2\<lparr>printed := []\<rparr>\<rparr>))
                              else Inr st1)))))"

fun fix_loop :: "env \<Rightarrow> precommit \<Rightarrow> repository \<Rightarrow> entry list \<Rightarrow> run_state \<Rightarrow> error + run_state" where
  "fix_loop e pc repo [] st = Inr st"
| "fix_loop e pc repo (en # ens) st =
     (case fix_step e pc repo en st of
        Inl err \<Rightarrow> Inl err
      | Inr st' \<Rightarrow> fix_loop e pc repo ens st')"

text \<open>
  The files of the final \<open>git add\<close>: the staged files and then the unstaged ones not already
  among them, without the files staged for deletion.
\<close>

definition restage_files :: "repository \<Rightarrow> string list" where
  "restage_files repo =
     filter (\<lambda>p. p \<notin> set (staged_for_deletion repo))
       (staged repo @ filter (\<lambda>p. p \<notin> set (staged repo)) (unstaged repo))"

definition restage :: "env \<Rightarrow> precommit \<Rightarrow> repository \<Rightarrow> run_state \<Rightarrow> error + run_state" where
  "restage e pc repo st =
     (if problems_fixed st > 0 \<and> \<not> dry_run pc
      then (case fs_run e ByEngine ([''git'', ''add''] @ restage_files repo) ((gw st)\<lparr>printed := []\<rparr>) of
              Inl err \<Rightarrow> Inl err
            | Inr (rc, g') \<Rightarrow> Inr (st\<lparr>gw := g'\<lparr>printed := []\<rparr>\<rparr>))
      else Inr st)"

definition fix_summary :: "run_state \<Rightarrow> string" where
  "fix_summary st =
     ''Ran '' @ show_nat (fixable_checks_run st) @ '' fixable checks. Detected ''
       @ show_nat (problems_found st) @ '' issues. Fixed '' @ show_nat (problems_fixed st)
       @ '' of them.''"

definition fix_mode :: "env \<Rightarrow> precommit \<Rightarrow> repository \<Rightarrow> gateway \<Rightarrow> error + run_state" where
  "fix_mode e pc repo g =
     (case fix_loop e pc repo (checks pc) (initial_state g) of
        Inl err \<Rightarrow> Inl err
      | Inr st \<Rightarrow>
          (case restage e pc repo st of
             Inl err \<Rightarrow> Inl err
           | Inr st' \<Rightarrow> Inr (st'\<lparr>report := report st' @ [[], fix_summary st']\<rparr>)))"

section \<open>The command line of main.py\<close>

definition SUBCOMMANDS :: "string list" where
  "SUBCOMMANDS = [''init'', ''fix'', ''help'', ''check'']"

definition SHORT_FLAGS :: "(string \<times> string) list" where
  "SHORT_FLAGS = [(''-f'', ''--force''), (''-h'', ''--help'')]"

text \<open>Each flag with the subcommands it is valid for; none listed means valid for all.\<close>

definition FLAGS :: "(string \<times> string list) list" where
  "FLAGS =
     [(''--color'', []), (''--no-color'', []), (''--help'', []),
      (''--verbose'', [''fix'', ''check'']), (''--all'', [''fix'', ''check'']),
      (''--force'', [''init'']), (''--dry-run'', [''fix''])]"

text \<open>
  \<open>Args\<close>. Every flag that \<open>parse_args\<close> stores has the value \<open>True\<close>, so the dict \<open>flags\<close> is
  the list of its keys, in the order in which a dict keeps them: that of first insertion.
\<close>

record args =
  subcommand :: string
  positional :: "string list"
  flags :: "string list"

definition dict_set :: "string \<Rightarrow> string list \<Rightarrow> string list" where
  "dict_set k ks = (if k \<in> set ks then ks else ks @ [k])"

fun parse_loop :: "string list \<Rightarrow> bool \<Rightarrow> string list \<Rightarrow> string list \<Rightarrow> string list \<times> string list" where
  "parse_loop [] force_positional pos fl = (pos, fl)"
| "parse_loop (arg # rest) force_positional pos fl =
     (if arg = ''--'' then parse_loop rest True pos fl
      else if \<not> force_positional \<and> startswith arg ''-''
      then (case map_of SHORT_FLAGS arg of
              Some long \<Rightarrow> parse_loop rest force_positional pos (dict_set long fl)
            | None \<Rightarrow> parse_loop rest force_positional pos (dict_set arg fl))
      else parse_loop rest force_positional (pos @ [arg]) fl)"

text \<open>
  \<open>parse_args(args)\<close> does not read its parameter: its loop is over \<open>sys.argv[1:]\<close>, the
  second argument here. \<open>main\<close> passes \<open>sys.argv[1:]\<close> for both.
\<close>

definition parse_args :: "string list \<Rightarrow> string list \<Rightarrow> args" where
  "parse_args unused argv1 =
     (case parse_loop argv1 False [] [] of
        (pos, fl) \<Rightarrow>
          (case pos of
             [] \<Rightarrow> \<lparr>subcommand = ''check'', positional = [], flags = fl\<rparr>
           | sub # others \<Rightarrow> \<lparr>subcommand = sub, positional = others, flags = fl\<rparr>))"

fun check_flags :: "string \<Rightarrow> string list \<Rightarrow> string option" where
  "check_flags sub [] = None"
| "check_flags sub (flag # rest) =
     (case map_of FLAGS flag of
        None \<Rightarrow> Some (''unknown flag: '' @ flag)
      | Some valid_subcommands \<Rightarrow>
          if valid_subcommands \<noteq> [] \<and> sub \<notin> set valid_subcommands
          then Some (''flag '' @ flag @ '' not valid for '' @ sub @ '' subcommand'')
          else check_flags sub rest)"

definition check_args :: "args \<Rightarrow> string option" where
  "check_args a =
     (if length (positional a) > 0 then Some ''precommit does not take positional arguments''
      else if subcommand a \<notin> set SUBCOMMANDS then Some (''unknown subcommand: '' @ subcommand a)
      else if ''--no-color'' \<in> set (flags a) \<and> ''--color'' \<in> set (flags a)
      then Some ''--color and --no-color are incompatible''
      else check_flags (subcommand a) (flags a))"

text \<open>
  \<open>handle_args\<close>: \<open>Inl\<close> is the message handed to \<open>error\<close>. The colour switches of \<open>utils\<close> are
  not modelled. After it, a flag that was not given reads as \<open>False\<close>.
\<close>

definition handle_args :: "string list \<Rightarrow> string + args" where
  "handle_args argv1 =
     (let a = parse_args argv1 argv1 in
      case check_args a of
        None \<Rightarrow> Inr a
      | Some errormsg \<Rightarrow> if errormsg \<noteq> [] then Inl errormsg else Inr a)"

definition flag :: "args \<Rightarrow> string \<Rightarrow> bool" where
  "flag a f = (f \<in> set (flags a))"

text \<open>
  What a run of the program leaves: the exit status, the lines on standard error, whether
  \<^verbatim>\<open>precommit.py\<close> was loaded, the files written, and the final state of the engine when it ran.
\<close>

record outcome =
  exit_status :: int
  stderr :: "string list"
  config_loaded :: bool
  written :: "string list"
  engine :: "run_state option"

text \<open>\<open>error(message)\<close>: the message on standard error, then \<open>sys.exit(1)\<close>.\<close>

definition error_exit :: "bool \<Rightarrow> string \<Rightarrow> outcome" where
  "error_exit loaded msg =
     \<lparr>exit_status = 1, stderr = [''Error: '' @ msg], config_loaded = loaded, written = [],
      engine = None\<rparr>"

text \<open>An exception that nothing catches: Python prints a traceback and exits with 1.\<close>

definition uncaught :: "bool \<Rightarrow> error \<Rightarrow> outcome" where
  "uncaught loaded err =
     \<lparr>exit_status = 1, stderr = [''Traceback (most recent call last):''], config_loaded = loaded,
      written = [], engine = None\<rparr>"

definition finished :: "run_state option \<Rightarrow> outcome" where
  "finished st = \<lparr>exit_status = 0, stderr = [], config_loaded = (st \<noteq> None), written = [], engine = st\<rparr>"

text \<open>
  \<^verbatim>\<open>precommit.py\<close>: absent or not importable, or its \<open>init\<close> raises (a \<open>Command\<close> that cannot
  be constructed, say), or it registers the Checks.
\<close>

datatype config = Missing | InitRaises error | Registers "entry list"

text \<open>
  What the program finds around it: the answer of \<^verbatim>\<open>git rev-parse --show-toplevel\<close> (the
  process cannot be started, or it gives a return code and its standard output), the
  configuration, which of the files of \<open>init\<close> exist, the outside of the gateway and the
  repository view.
\<close>

record system =
  git_rev_parse :: "error + int \<times> string"
  precommit_py :: config
  precommit_py_exists :: bool
  hooks_directory_exists :: bool
  hook_exists :: bool
  world :: env
  view :: repository

text \<open>
  \<open>get_precommit\<close>. Modelled from the spec: \<open>Precommit.from_args\<close> (\<^verbatim>\<open>lib.py\<close>) takes the run
  configuration from the flags.
\<close>

definition from_args :: "entry list \<Rightarrow> args \<Rightarrow> precommit" where
  "from_args cs a =
     \<lparr>checks = cs, check_all = flag a ''--all'', dry_run = flag a ''--dry-run'',
      verbose = flag a ''--verbose''\<rparr>"

definition get_precommit :: "system \<Rightarrow> args \<Rightarrow> outcome + precommit" where
  "get_precommit sys a =
     (case precommit_py sys of
        Missing \<Rightarrow>
          Inl (error_exit False (''could not find precommit.py. You can create it with ''
                 @ [QUOTE] @ ''precommit init'' @ [QUOTE] @ ''.''))
      | InitRaises err \<Rightarrow> Inl (uncaught True err)
      | Registers cs \<Rightarrow> Inr (from_args cs a))"

definition empty_gateway :: gateway where
  "empty_gateway = \<lparr>events = [], printed = []\<rparr>"

definition main_check :: "system \<Rightarrow> args \<Rightarrow> outcome" where
  "main_check sys a =
     (case get_precommit sys a of
        Inl out \<Rightarrow> out
      | Inr pc \<Rightarrow>
          (case check_mode (world sys) pc (view sys) empty_gateway of
             Inl err \<Rightarrow> uncaught True err
           | Inr (found_problems, st) \<Rightarrow>
               if found_problems then (finished (Some st))\<lparr>exit_status := 1\<rparr>
               else finished (Some st)))"

definition main_fix :: "system \<Rightarrow> args \<Rightarrow> outcome" where
  "main_fix sys a =
     (case get_precommit sys a of
        Inl out \<Rightarrow> out
      | Inr pc \<Rightarrow>
          (case fix_mode (world sys) pc (view sys) empty_gateway of
             Inl err \<Rightarrow> uncaught True err
           | Inr st \<Rightarrow> finished (Some st)))"

definition main_help :: "args \<Rightarrow> outcome" where
  "main_help a = finished None"

definition hookpath :: string where
  "hookpath = ''.git/hooks/pre-commit''"

text \<open>
  \<open>main_init\<close> writes \<^verbatim>\<open>precommit.py\<close> first; opening the hook for writing raises
  \<open>FileNotFoundError\<close> when the directory \<^verbatim>\<open>.git/hooks\<close> does not exist.
\<close>

definition main_init :: "system \<Rightarrow> args \<Rightarrow> outcome" where
  "main_init sys a =
     (if \<not> flag a ''--force'' \<and> precommit_py_exists sys
      then error_exit False ''precommit.py already exists. Re-run with --force to overwrite it.''
      else if \<not> flag a ''--force'' \<and> hook_exists sys
      then error_exit False (hookpath @ '' already exists. Re-run with --force to overwrite it.'')
      else if \<not> hooks_directory_exists sys
      then (uncaught False (UnexpectedFailure ''FileNotFoundError''))\<lparr>written := [''precommit.py'']\<rparr>
      else (finished None)\<lparr>written := [''precommit.py'', hookpath]\<rparr>)"

text \<open>
  \<open>chdir_to_git_root\<close>: \<open>None\<close> when the program goes on. A return code other than 0 is the
  error \<open>must be in git repository.\<close>; the output is decoded as ASCII, which raises
  \<open>UnicodeDecodeError\<close> on a byte above 127.
\<close>

definition chdir_to_git_root :: "system \<Rightarrow> outcome option" where
  "chdir_to_git_root sys =
     (case git_rev_parse sys of
        Inl err \<Rightarrow> Some (uncaught False err)
      | Inr (returncode, out) \<Rightarrow>
          if returncode \<noteq> 0 then Some (error_exit False ''must be in git repository.'')
          else if list_all (\<lambda>c. (of_char c :: nat) < 128) out then None
          else Some (uncaught False (UnexpectedFailure ''UnicodeDecodeError'')))"

definition main :: "string list \<Rightarrow> system \<Rightarrow> outcome" where
  "main argv1 sys =
     (case handle_args argv1 of
        Inl errormsg \<Rightarrow> error_exit False errormsg
      | Inr a \<Rightarrow>
          (case chdir_to_git_root sys of
             Some out \<Rightarrow> out
           | None \<Rightarrow>
               if subcommand a = ''help'' \<or> flag a ''--help'' then main_help a
               else if subcommand a = ''init'' then main_init sys a
               else if subcommand a = ''fix'' then main_fix sys a
               else main_check sys a))"

section \<open>The fixtures of tests.py\<close>

text \<open>
  \<open>MockFilesystem\<close>: every command returns 1, \<open>black --check\<close> prints a line, every file
  holds the marker; \<open>list(both)\<close> keeps the order of the list. The repository view and the
  four Checks are those of \<open>Test.setUp\<close>.
\<close>

definition MockFilesystem :: env where
  "MockFilesystem =
     \<lparr>proc = (\<lambda>history c.
         Inr (1, if take 2 c = [''black'', ''--check'']
                 then [''<failed output of black command>''] else [])),
      file_bytes = (\<lambda>history path. Inr (''DO NOT'' @ '' SUBMIT'')),
      set_order = (\<lambda>xs. xs)\<rparr>"

definition mock_repository :: repository where
  "mock_repository =
     \<lparr>staged = [''main.py'', ''ignoreme.py''], staged_for_deletion = [], unstaged = [''main.py'']\<rparr>"

definition no_patterns :: base_check where
  "no_patterns = \<lparr>include_patterns = [], exclude_patterns = []\<rparr>"

definition mock_PythonFormat :: command where
  "mock_PythonFormat =
     \<lparr>base = \<lparr>include_patterns = [''*.py''], exclude_patterns = [''ignoreme.py'']\<rparr>,
      name = ''PythonFormat'', cmd = [''black'', ''--check''], fix_cmd = Some [''black''],
      pass_files = True, separately = False\<rparr>"

definition mock_checklist :: "entry list" where
  "mock_checklist =
     map (\<lambda>c. \<lparr>the_check = c, slow = False\<rparr>)
       [DoNotSubmit no_patterns, NoStagedAndUnstagedChanges no_patterns,
        NoWhitespaceInFilePath no_patterns, Command mock_PythonFormat]"

definition mock_precommit :: precommit where
  "mock_precommit = \<lparr>checks = mock_checklist, check_all = True, dry_run = False, verbose = False\<rparr>"

text \<open>
  A variant of the mock for \<open>DoNotSubmit\<close>: one file holds the marker in mixed case, one
  cannot be opened, the others hold no marker.
\<close>

definition lower_case_file :: env where
  "lower_case_file = MockFilesystem\<lparr>file_bytes := (\<lambda>history path.
      if path = ''main.py'' then Inr ''# do Not submit yet'' else
      if path = ''gone.py'' then Inl (UnexpectedFailure ''FileNotFoundError'') else Inr ''print(1)'')\<rparr>"

text \<open>The system of the tests: inside a repository, with the configuration of \<open>setUp\<close>.\<close>

definition mock_system :: system where
  "mock_system =
     \<lparr>git_rev_parse = Inr (0, ''/home/user/project'' @ [NL]),
      precommit_py = Registers mock_checklist, precommit_py_exists = True,
      hooks_directory_exists = True, hook_exists = True, world = MockFilesystem,
      view = mock_repository\<rparr>"

text \<open>The arguments \<open>--all\<close> with a subcommand, and a configuration with one Check.\<close>

definition all_args :: "string \<Rightarrow> args" where
  "all_args sub = \<lparr>subcommand = sub, positional = [], flags = [''--all'']\<rparr>"

definition whitespace_only :: "entry list" where
  "whitespace_only = [\<lparr>the_check = NoWhitespaceInFilePath no_patterns, slow = False\<rparr>]"

section \<open>Properties used to state the claims\<close>

text \<open>
  Python promises of the iteration over a set only that every element comes once: the
  order of a list without repetitions may change, its elements may not.
\<close>

definition set_iteration :: "(string list \<Rightarrow> string list) \<Rightarrow> bool" where
  "set_iteration f = (\<forall>xs. distinct xs \<longrightarrow> distinct (f xs) \<and> set (f xs) = set xs)"

text \<open>
  The return codes of the per-file invocations of a \<open>separately\<close> Command, in order: each
  run sees the history that the runs before it left.
\<close>

fun separate_returncodes :: "env \<Rightarrow> string list \<Rightarrow> string list \<Rightarrow> gateway \<Rightarrow> error + int list" where
  "separate_returncodes e c [] g = Inr []"
| "separate_returncodes e c (path # paths) g =
     (case fs_run e ByCheck (c @ [path]) g of
        Inl err \<Rightarrow> Inl err
      | Inr (rc, g') \<Rightarrow>
          (case separate_returncodes e c paths g' of
             Inl err \<Rightarrow> Inl err
           | Inr rcs \<Rightarrow> Inr (rc # rcs)))"

text \<open>
  A flag offends a subcommand when \<open>FLAGS\<close> does not list it, or lists it for other
  subcommands only; \<open>flag_message\<close> is what \<open>check_args\<close> says of such a flag.
\<close>

definition offending :: "string \<Rightarrow> string \<Rightarrow> bool" where
  "offending sub f =
     (case map_of FLAGS f of
        None \<Rightarrow> True
      | Some valid_subcommands \<Rightarrow> valid_subcommands \<noteq> [] \<and> sub \<notin> set valid_subcommands)"

definition flag_message :: "string \<Rightarrow> string \<Rightarrow> string" where
  "flag_message sub f =
     (if map_of FLAGS f = None then ''unknown flag: '' @ f
      else ''flag '' @ f @ '' not valid for '' @ sub @ '' subcommand'')"

text \<open>
  An invocation is malformed when it has a positional argument after the subcommand, an
  unknown subcommand, or a flag that offends the subcommand.
\<close>

definition malformed :: "args \<Rightarrow> bool" where
  "malformed a =
     (positional a \<noteq> [] \<or> subcommand a \<notin> set SUBCOMMANDS
      \<or> list_ex (offending (subcommand a)) (flags a))"

text \<open>The flag that \<open>parse_args\<close> stores for a token: \<open>SHORT_FLAGS\<close> applied.\<close>

definition long_form :: "string \<Rightarrow> string" where
  "long_form t = (case map_of SHORT_FLAGS t of Some long \<Rightarrow> long | None \<Rightarrow> t)"

text \<open>
  In fix mode a problem is counted as found exactly when it is counted as fixed, and only
  for a fixable Check.
\<close>

definition fix_counters_ok :: "run_state \<Rightarrow> bool" where
  "fix_counters_ok st =
     (problems_found st = problems_fixed st \<and> problems_fixed st \<le> fixable_checks_run st)"

text \<open>
  What the executed Checks of a run in check mode return, in order; each Check sees the
  history that the Checks before it left.
\<close>

fun check_results :: "env \<Rightarrow> precommit \<Rightarrow> repository \<Rightarrow> entry list \<Rightarrow> gateway \<Rightarrow> error + problem option list" where
  "check_results e pc repo [] g = Inr []"
| "check_results e pc repo (en # ens) g =
     (if skipped pc en then check_results e pc repo ens g
      else (case run_check e repo (the_check en) (g\<lparr>printed := []\<rparr>) of
              Inl err \<Rightarrow> Inl err
            | Inr (res, g1) \<Rightarrow>
                (case check_results e pc repo ens (g1\<lparr>printed := []\<rparr>) of
                   Inl err \<Rightarrow> Inl err
                 | Inr rs \<Rightarrow> Inr (res # rs))))"

text \<open>
  The tokens of a command line as \<open>parse_args\<close> sorts them. Before the first \<open>--\<close> a token
  that starts with \<open>-\<close> is a flag and any other token is positional; after it every token but
  \<open>--\<close> is positional. \<open>first_occurrences\<close> keeps each element where it first appears.
\<close>

definition positional_tokens :: "string list \<Rightarrow> string list" where
  "positional_tokens argv =
     filter (\<lambda>t. \<not> startswith t ''-'') (takeWhile (\<lambda>t. t \<noteq> ''--'') argv)
       @ filter (\<lambda>t. t \<noteq> ''--'') (dropWhile (\<lambda>t. t \<noteq> ''--'') argv)"

definition flag_tokens :: "string list \<Rightarrow> string list" where
  "flag_tokens argv =
     map long_form (filter (\<lambda>t. startswith t ''-'') (takeWhile (\<lambda>t. t \<noteq> ''--'') argv))"

fun first_occurrences :: "string list \<Rightarrow> string list" where
  "first_occurrences [] = []"
| "first_occurrences (x # xs) = x # filter (\<lambda>y. y \<noteq> x) (first_occurrences xs)"

text \<open>The message of \<open>get_precommit\<close> when \<^verbatim>\<open>precommit.py\<close> cannot be loaded.\<close>

definition missing_message :: string where
  "missing_message =
     ''could not find precommit.py. You can create it with '' @ [QUOTE] @ ''precommit init''
       @ [QUOTE] @ ''.''"

text \<open>
  The fixes that a run in fix mode applies, in order, and the gateway once the last Check
  is done: each Check runs on what the Checks and fixes before it left; the autofix of a
  Problem is applied when it is there, the Check is fixable and the run is not a dry run.
\<close>

fun applied_fixes ::
  "env \<Rightarrow> precommit \<Rightarrow> repository \<Rightarrow> entry list \<Rightarrow> gateway \<Rightarrow> error + fix_action list \<times> gateway" where
  "applied_fixes e pc repo [] g = Inr ([], g)"
| "applied_fixes e pc repo (en # ens) g =
     (if skipped pc en then applied_fixes e pc repo ens g
      else (case run_check e repo (the_check en) (g\<lparr>printed := []\<rparr>) of
              Inl err \<Rightarrow> Inl err
            | Inr (res, g1) \<Rightarrow>
                (case res of
                   None \<Rightarrow> applied_fixes e pc repo ens (g1\<lparr>printed := []\<rparr>)
                 | Some p \<Rightarrow>
                     (case autofix p of
                        None \<Rightarrow> applied_fixes e pc repo ens (g1\<lparr>printed := []\<rparr>)
                      | Some a \<Rightarrow>
                          if has_autofix p \<and> is_fixable (the_check en) \<and> \<not> dry_run pc
                          then (case apply_autofix e a g1 of
                                  Inl err \<Rightarrow> Inl err
                                | Inr g2 \<Rightarrow>
                                    (case applied_fixes e pc repo ens (g2\<lparr>printed := []\<rparr>) of
                                       Inl err \<Rightarrow> Inl err
                                     | Inr (applied, g') \<Rightarrow> Inr (a # applied, g')))
                          else applied_fixes e pc repo ens (g1\<lparr>printed := []\<rparr>)))))"

fun fix_event :: "fix_action \<Rightarrow> event" where
  "fix_event (FixCommand c) = Ran ByAutofix c"
| "fix_event (FixCallable k) = Invoked k"

text \<open>
  The events that are fixes (commands run as an autofix, callables invoked), and whether
  an event is a command run by a Check.
\<close>

fun autofix_events :: "event list \<Rightarrow> event list" where
  "autofix_events [] = []"
| "autofix_events (Ran who c # es) =
     (if who = ByAutofix then Ran who c # autofix_events es else autofix_events es)"
| "autofix_events (Invoked k # es) = Invoked k # autofix_events es"

fun by_check :: "event \<Rightarrow> bool" where
  "by_check (Ran who c) = (who = ByCheck)"
| "by_check (Invoked k) = False"

text \<open>The command of the final re-stage.\<close>

definition restage_command :: "repository \<Rightarrow> string list" where
  "restage_command repo = [''git'', ''add''] @ restage_files repo"

section \<open>Auxiliary facts\<close>

lemma match_star: "match_tokens [Star] s"
  by (induction s) auto

lemma fnmatch_star: "fnmatch path ''*''"
  by (simp add: fnmatch_def match_star)

lemma mock_PythonFormat_eq: "PythonFormat [] [] [''ignoreme.py''] = Inr mock_PythonFormat"
  by (simp add: PythonFormat_def Command_init_def mock_PythonFormat_def)

section \<open>The claims\<close>

text \<open>
  C1. For every Check and every list of candidate paths, \<open>filter\<close> returns a part of the input:
  exactly the paths that match at least one include pattern and no exclude pattern, so that
  an exclude pattern wins over an include pattern for each path. An empty include list
  stands for \<open>["*"]\<close>, which every path matches; an empty exclude list excludes nothing; with
  both lists empty the input comes back unchanged.
\<close>

theorem filter_paths_spec:
  "set (filter_paths c paths) \<subseteq> set paths
   \<and> filter_paths c paths =
       filter (\<lambda>p. (\<exists>pat \<in> set (effective_include c). fnmatch p pat)
                  \<and> \<not> (\<exists>pat \<in> set (exclude_patterns c). fnmatch p pat)) paths
   \<and> effective_include c = (if include_patterns c = [] then [''*''] else include_patterns c)
   \<and> (include_patterns c = [] \<longrightarrow> (\<forall>p. \<exists>pat \<in> set (effective_include c). fnmatch p pat))
   \<and> (include_patterns c = [] \<and> exclude_patterns c = [] \<longrightarrow> filter_paths c paths = paths)"
proof -
  have sub: "set (filter_paths c paths) \<subseteq> set paths"
    by (simp add: filter_paths_def)
  have eq: "filter_paths c paths =
       filter (\<lambda>p. (\<exists>pat \<in> set (effective_include c). fnmatch p pat)
                  \<and> \<not> (\<exists>pat \<in> set (exclude_patterns c). fnmatch p pat)) paths"
    by (simp add: filter_paths_def list_ex_iff)
  have inc: "include_patterns c = [] \<Longrightarrow> \<exists>pat \<in> set (effective_include c). fnmatch p pat" for p
    by (simp add: effective_include_def fnmatch_star)
  have full: "include_patterns c = [] \<and> exclude_patterns c = [] \<Longrightarrow> filter_paths c paths = paths"
    by (simp add: filter_paths_def effective_include_def fnmatch_star)
  show ?thesis
    using sub eq inc full by (simp add: effective_include_def)
qed

theorem filter_paths_spec_witness:
  "filter_paths \<lparr>include_patterns = [], exclude_patterns = []\<rparr> [''main.py'', ''a b/c.txt'']
     = [''main.py'', ''a b/c.txt'']
   \<and> filter_paths \<lparr>include_patterns = [''*.py''], exclude_patterns = [''ignoreme.py'']\<rparr>
       [''main.py'', ''ignoreme.py'', ''README''] = [''main.py'']"
  using filter_paths_spec [of "\<lparr>include_patterns = [], exclude_patterns = []\<rparr>" "[''main.py'', ''a b/c.txt'']"]
    filter_paths_spec [of "\<lparr>include_patterns = [''*.py''], exclude_patterns = [''ignoreme.py'']\<rparr>"
       "[''main.py'', ''ignoreme.py'', ''README'']"]
  by (simp add: effective_include_def fnmatch_def)

text \<open>
  C4. Constructing a \<open>Command\<close> with \<open>separately=True\<close> and \<open>pass_files=False\<close> raises a
  \<open>UsageError\<close>: the constructor returns the error and no Check, so nothing can be run with it.
  For every other combination of the two flags the construction succeeds. A configuration
  whose \<open>init\<close> raises ends the program with status 1 before the engine runs.
\<close>

theorem Command_init_usage:
  "isl (Command_init nm c fx pf sep inc exc) = (sep \<and> \<not> pf)
   \<and> (sep \<and> \<not> pf \<longrightarrow>
        Command_init nm c fx pf sep inc exc
          = Inl (UsageError ''if `separately` is True, `pass_files` must also be True''))
   \<and> (\<not> (sep \<and> \<not> pf) \<longrightarrow>
        (\<exists>self. Command_init nm c fx pf sep inc exc = Inr self
           \<and> pass_files self = pf \<and> separately self = sep \<and> cmd self = c \<and> fix_cmd self = fx))
   \<and> (precommit_py sys = InitRaises err \<longrightarrow>
        engine (main_check sys a) = None \<and> engine (main_fix sys a) = None
        \<and> exit_status (main_check sys a) = 1 \<and> exit_status (main_fix sys a) = 1)"
  by (simp add: Command_init_def main_check_def main_fix_def get_precommit_def uncaught_def)

theorem Command_init_usage_witness:
  "Command_init ''lint'' [''flake8''] None False True [] []
     = Inl (UsageError ''if `separately` is True, `pass_files` must also be True'')
   \<and> isl (Command_init ''lint'' [''flake8''] None False True [] [])
   \<and> \<not> isl (Command_init ''lint'' [''flake8''] None True True [] [])
   \<and> \<not> isl (Command_init ''lint'' [''flake8''] None True False [] [])
   \<and> \<not> isl (Command_init ''lint'' [''flake8''] None False False [] [])
   \<and> engine (main_check (mock_system\<lparr>precommit_py := InitRaises
          (UsageError ''if `separately` is True, `pass_files` must also be True'')\<rparr>)
          (all_args ''check'')) = None"
  using Command_init_usage [of "''lint''" "[''flake8'']" None False True "[]" "[]"
      "mock_system\<lparr>precommit_py := InitRaises
          (UsageError ''if `separately` is True, `pass_files` must also be True'')\<rparr>"
      "UsageError ''if `separately` is True, `pass_files` must also be True''" "all_args ''check''"]
    Command_init_usage [of "''lint''" "[''flake8'']" None True True "[]" "[]"]
    Command_init_usage [of "''lint''" "[''flake8'']" None True False "[]" "[]"]
    Command_init_usage [of "''lint''" "[''flake8'']" None False False "[]" "[]"]
  by simp

lemma both_changed_set: "set (both_changed repo) = set (staged repo) \<inter> set (unstaged repo)"
  by (auto simp: both_changed_def)

lemma both_changed_distinct: "distinct (both_changed repo)"
  by (simp add: both_changed_def)

lemma sort_both_changed:
  "sort (both_changed repo) = sorted_list_of_set (set (staged repo) \<inter> set (unstaged repo))"
proof -
  have "sorted_list_of_set (set (both_changed repo)) = sort (remdups (both_changed repo))"
    by (rule sorted_list_of_set_sort_remdups)
  then show ?thesis
    by (simp add: both_changed_set distinct_remdups_id [OF both_changed_distinct])
qed

text \<open>
  C8. For every repository view, \<open>NoStagedAndUnstagedChanges.check\<close> returns a Problem if and
  only if the staged and the unstaged files have a file in common. The autofix of the Problem
  is \<open>git add\<close> followed by exactly the common files, each once, and the check prints the
  common files sorted, one path per line. The order of the files after \<open>git add\<close> is that of
  Python's iteration over a set.
\<close>

theorem NoStagedAndUnstagedChanges_check_spec:
  assumes order: "set_iteration (set_order e)"
  shows "(fst (NoStagedAndUnstagedChanges_check e self repo g) \<noteq> None)
           = (set (staged repo) \<inter> set (unstaged repo) \<noteq> {})
    \<and> (set (staged repo) \<inter> set (unstaged repo) = {} \<longrightarrow>
          NoStagedAndUnstagedChanges_check e self repo g = (None, g))
    \<and> (set (staged repo) \<inter> set (unstaged repo) \<noteq> {} \<longrightarrow>
          (\<exists>files. fst (NoStagedAndUnstagedChanges_check e self repo g)
                     = Some \<lparr>message = None, autofix = Some (FixCommand (''git'' # ''add'' # files))\<rparr>
                 \<and> distinct files
                 \<and> set files = set (staged repo) \<inter> set (unstaged repo))
          \<and> snd (NoStagedAndUnstagedChanges_check e self repo g)
              = g\<lparr>printed := printed g @
                    [join [NL] (sorted_list_of_set (set (staged repo) \<inter> set (unstaged repo)))]\<rparr>)"
proof -
  let ?both = "both_changed repo"
  have empty_iff: "(?both = []) = (set (staged repo) \<inter> set (unstaged repo) = {})"
    using both_changed_set [of repo] by (metis set_empty)
  have files: "distinct (set_order e ?both) \<and> set (set_order e ?both) = set (staged repo) \<inter> set (unstaged repo)"
    using order both_changed_distinct [of repo] both_changed_set [of repo]
    by (simp add: set_iteration_def)
  show ?thesis
  proof (cases "?both = []")
    case True
    then show ?thesis
      using empty_iff by (simp add: NoStagedAndUnstagedChanges_check_def)
  next
    case False
    then show ?thesis
      using empty_iff files
      by (simp add: NoStagedAndUnstagedChanges_check_def fs_print_def sort_both_changed)
  qed
qed

lemma distinct_singleton_set: "distinct xs \<Longrightarrow> set xs = {a} \<Longrightarrow> xs = [a]"
proof (cases xs)
  case Nil
  assume "set xs = {a}"
  with Nil show ?thesis by simp
next
  case (Cons y ys)
  assume d: "distinct xs" and s: "set xs = {a}"
  from s Cons have "y = a" by auto
  moreover from d s Cons have "ys = []" by (cases ys) auto
  ultimately show ?thesis using Cons by simp
qed

theorem NoStagedAndUnstagedChanges_check_spec_witness:
  "NoStagedAndUnstagedChanges_check MockFilesystem no_patterns mock_repository empty_gateway
     = (Some \<lparr>message = None, autofix = Some (FixCommand [''git'', ''add'', ''main.py''])\<rparr>,
        \<lparr>events = [], printed = [''main.py'']\<rparr>)"
proof -
  have ord: "set_iteration (set_order MockFilesystem)"
    by (simp add: MockFilesystem_def set_iteration_def)
  have inter: "set (staged mock_repository) \<inter> set (unstaged mock_repository) = {''main.py''}"
    by (simp add: mock_repository_def)
  from NoStagedAndUnstagedChanges_check_spec [OF ord, of no_patterns mock_repository empty_gateway]
  obtain files where
    f: "fst (NoStagedAndUnstagedChanges_check MockFilesystem no_patterns mock_repository empty_gateway)
          = Some \<lparr>message = None, autofix = Some (FixCommand (''git'' # ''add'' # files))\<rparr>"
    and d: "distinct files" and s: "set files = {''main.py''}"
    and p: "snd (NoStagedAndUnstagedChanges_check MockFilesystem no_patterns mock_repository empty_gateway)
          = empty_gateway\<lparr>printed := printed empty_gateway @ [join [NL] (sorted_list_of_set {''main.py''})]\<rparr>"
    unfolding inter by auto
  have "files = [''main.py'']"
    using d s by (rule distinct_singleton_set)
  then show ?thesis
    using f p by (simp add: prod_eq_iff empty_gateway_def)
qed

text \<open>
  C9. The result of \<open>NoStagedAndUnstagedChanges.check\<close> depends on the staged and unstaged
  lists only: two invocations whose views agree on them give the same Problem or nothing,
  the same autofix and the same output, whatever include and exclude patterns the two Checks
  were constructed with.
\<close>

theorem NoStagedAndUnstagedChanges_ignores_patterns:
  assumes "staged repo1 = staged repo2" and "unstaged repo1 = unstaged repo2"
  shows "NoStagedAndUnstagedChanges_check e self1 repo1 g
           = NoStagedAndUnstagedChanges_check e self2 repo2 g"
  using assms by (simp add: NoStagedAndUnstagedChanges_check_def both_changed_def)

theorem NoStagedAndUnstagedChanges_ignores_patterns_witness:
  "NoStagedAndUnstagedChanges_check MockFilesystem
       \<lparr>include_patterns = [''*.rs''], exclude_patterns = [''*'']\<rparr> mock_repository empty_gateway
     = NoStagedAndUnstagedChanges_check MockFilesystem no_patterns
         (mock_repository\<lparr>staged_for_deletion := [''gone.py'']\<rparr>) empty_gateway"
  using NoStagedAndUnstagedChanges_ignores_patterns
    [of mock_repository "mock_repository\<lparr>staged_for_deletion := [''gone.py'']\<rparr>" MockFilesystem
        "\<lparr>include_patterns = [''*.rs''], exclude_patterns = [''*'']\<rparr>" empty_gateway no_patterns]
  by simp

lemma startswith_iff: "startswith s p = (\<exists>post. s = p @ post)"
  by (induction s p rule: startswith.induct) auto

lemma contains_iff: "contains needle hay = (\<exists>pre post. hay = pre @ needle @ post)"
proof (induction hay)
  case Nil
  then show ?case by auto
next
  case (Cons c cs)
  show ?case
  proof
    assume "contains needle (c # cs)"
    then consider "startswith (c # cs) needle" | "contains needle cs" by auto
    then show "\<exists>pre post. c # cs = pre @ needle @ post"
    proof cases
      case 1
      then obtain post where "c # cs = needle @ post" by (auto simp: startswith_iff)
      then have "c # cs = [] @ needle @ post" by simp
      then show ?thesis by blast
    next
      case 2
      with Cons obtain pre post where "cs = pre @ needle @ post" by auto
      then have "c # cs = (c # pre) @ needle @ post" by simp
      then show ?thesis by blast
    qed
  next
    assume "\<exists>pre post. c # cs = pre @ needle @ post"
    then obtain pre post where eq: "c # cs = pre @ needle @ post" by auto
    show "contains needle (c # cs)"
    proof (cases pre)
      case Nil
      with eq have "startswith (c # cs) needle" by (auto simp: startswith_iff)
      then show ?thesis by simp
    next
      case (Cons a pre')
      with eq have "cs = pre' @ needle @ post" by simp
      with Cons.IH have "contains needle cs" by blast
      then show ?thesis by simp
    qed
  qed
qed

lemma upper_append: "upper (xs @ ys) = upper xs @ upper ys"
  by (simp add: upper_def)

lemma upper_lower_marker: "upper ''do not submit'' = DO_NOT_SUBMIT"
  by code_simp

lemma DoNotSubmit_scan_readable:
  assumes "\<forall>p \<in> set paths. \<not> isl (fs_open e p g)"
  shows "DoNotSubmit_scan e g bad paths
           = Inr (bad @ filter (\<lambda>p. contains DO_NOT_SUBMIT (upper (projr (fs_open e p g)))) paths)"
  using assms
proof (induction paths arbitrary: bad)
  case Nil
  then show ?case by simp
next
  case (Cons p ps)
  from Cons.prems obtain content where c: "fs_open e p g = Inr content"
    by (cases "fs_open e p g") auto
  from Cons.prems have rest: "\<forall>q \<in> set ps. \<not> isl (fs_open e q g)" by simp
  show ?case
    using c Cons.IH [OF rest] by simp
qed

text \<open>
  C10. \<open>DoNotSubmit.check\<close> reports a staged file that passes the filter if and only if the
  bytes of the file, converted to upper case, contain the ASCII string \<open>DO NOT SUBMIT\<close>; the
  match is therefore case-insensitive, and a file holding the lower-case string is reported
  too. When a file is reported the Problem carries a message and no autofix. (The files that
  pass the filter are taken to be readable; an unreadable file makes \<open>check\<close> raise.)
\<close>

theorem DoNotSubmit_check_spec:
  assumes readable: "\<forall>p \<in> set (filter_paths self (staged repo)). \<not> isl (fs_open e p g)"
  shows "DoNotSubmit_check e self repo g =
           (let flagged = filter (\<lambda>p. \<exists>pre post. upper (projr (fs_open e p g)) = pre @ ''DO NOT SUBMIT'' @ post)
                            (filter_paths self (staged repo))
            in if flagged = [] then Inr (None, g)
               else Inr (Some \<lparr>message = Some (''file contains '' @ [QUOTE] @ ''DO NOT SUBMIT'' @ [QUOTE]),
                               autofix = None\<rparr>,
                         g\<lparr>printed := printed g @ [join [NL] (sort flagged)]\<rparr>))
         \<and> (\<forall>content pre post. content = pre @ ''do not submit'' @ post \<longrightarrow>
               (\<exists>pre' post'. upper content = pre' @ ''DO NOT SUBMIT'' @ post'))"
proof -
  have marker: "DO_NOT_SUBMIT = ''DO NOT SUBMIT''"
    by (simp add: DO_NOT_SUBMIT_def)
  have scan: "DoNotSubmit_scan e g [] (filter_paths self (staged repo))
      = Inr (filter (\<lambda>p. \<exists>pre post. upper (projr (fs_open e p g)) = pre @ ''DO NOT SUBMIT'' @ post)
               (filter_paths self (staged repo)))"
    using DoNotSubmit_scan_readable [OF readable, of "[]"]
    by (simp add: contains_iff marker)
  have first: "DoNotSubmit_check e self repo g =
           (let flagged = filter (\<lambda>p. \<exists>pre post. upper (projr (fs_open e p g)) = pre @ ''DO NOT SUBMIT'' @ post)
                            (filter_paths self (staged repo))
            in if flagged = [] then Inr (None, g)
               else Inr (Some \<lparr>message = Some (''file contains '' @ [QUOTE] @ ''DO NOT SUBMIT'' @ [QUOTE]),
                               autofix = None\<rparr>,
                         g\<lparr>printed := printed g @ [join [NL] (sort flagged)]\<rparr>))"
    unfolding DoNotSubmit_check_def scan by (simp add: Let_def fs_print_def marker)
  have second: "\<exists>pre' post'. upper (pre @ ''do not submit'' @ post) = pre' @ ''DO NOT SUBMIT'' @ post'"
    for pre post
  proof -
    have "upper (pre @ ''do not submit'' @ post) = upper pre @ upper ''do not submit'' @ upper post"
      by (simp only: upper_append)
    also have "\<dots> = upper pre @ ''DO NOT SUBMIT'' @ upper post"
      by (simp only: upper_lower_marker marker)
    finally show ?thesis by blast
  qed
  show ?thesis
    using first second by blast
qed

theorem DoNotSubmit_check_spec_witness:
  "DoNotSubmit_check lower_case_file \<lparr>include_patterns = [], exclude_patterns = [''gone.py'']\<rparr>
       \<lparr>staged = [''main.py'', ''gone.py'', ''ok.py''], staged_for_deletion = [], unstaged = []\<rparr> empty_gateway
     = Inr (Some \<lparr>message = Some (''file contains '' @ [QUOTE] @ ''DO NOT SUBMIT'' @ [QUOTE]), autofix = None\<rparr>,
            \<lparr>events = [], printed = [''main.py'']\<rparr>)"
proof -
  let ?repo = "\<lparr>staged = [''main.py'', ''gone.py'', ''ok.py''], staged_for_deletion = [], unstaged = []\<rparr>"
  let ?self = "\<lparr>include_patterns = [], exclude_patterns = [''gone.py'']\<rparr>"
  have paths: "filter_paths ?self (staged ?repo) = [''main.py'', ''ok.py'']"
    by (simp add: filter_paths_def effective_include_def fnmatch_def)
  have readable: "\<forall>p \<in> set (filter_paths ?self (staged ?repo)). \<not> isl (fs_open lower_case_file p empty_gateway)"
    unfolding paths by (simp add: fs_open_def lower_case_file_def)
  define P where "P = (\<lambda>p. \<exists>pre post.
      upper (projr (fs_open lower_case_file p empty_gateway)) = pre @ ''DO NOT SUBMIT'' @ post)"
  have o1: "projr (fs_open lower_case_file ''main.py'' empty_gateway) = ''# do Not submit yet''"
    by (simp add: fs_open_def lower_case_file_def)
  have o2: "projr (fs_open lower_case_file ''ok.py'' empty_gateway) = ''print(1)''"
    by (simp add: fs_open_def lower_case_file_def)
  have u1: "upper ''# do Not submit yet'' = ''# DO NOT SUBMIT YET''" by code_simp
  have u2: "upper ''print(1)'' = ''PRINT(1)''" by code_simp
  have c1: "contains ''DO NOT SUBMIT'' ''# DO NOT SUBMIT YET''" by simp
  have c2: "\<not> contains ''DO NOT SUBMIT'' ''PRINT(1)''" by simp
  have p1: "P ''main.py''"
    using c1 unfolding P_def o1 u1 contains_iff .
  have p2: "\<not> P ''ok.py''"
    using c2 unfolding P_def o2 u2 contains_iff .
  have flagged: "filter P [''main.py'', ''ok.py''] = [''main.py'']"
    using p1 p2 by simp
  have "DoNotSubmit_check lower_case_file ?self ?repo empty_gateway =
           (let flagged = filter P (filter_paths ?self (staged ?repo))
            in if flagged = [] then Inr (None, empty_gateway)
               else Inr (Some \<lparr>message = Some (''file contains '' @ [QUOTE] @ ''DO NOT SUBMIT'' @ [QUOTE]),
                               autofix = None\<rparr>,
                         empty_gateway\<lparr>printed := printed empty_gateway @ [join [NL] (sort flagged)]\<rparr>))"
    unfolding P_def using DoNotSubmit_check_spec [OF readable] by blast
  then show ?thesis
    unfolding paths flagged by (simp add: empty_gateway_def)
qed

lemma separate_returncodes_length:
  "separate_returncodes e c paths g = Inr rcs \<Longrightarrow> length rcs = length paths"
proof (induction paths arbitrary: g rcs)
  case Nil
  then show ?case by simp
next
  case (Cons p ps)
  then show ?case
    by (auto split: sum.splits prod.splits)
qed

lemma run_separately_flag:
  "separate_returncodes e c paths g = Inr rcs \<Longrightarrow>
   \<exists>g'. run_separately e c paths problem g = Inr (problem \<or> (\<exists>rc \<in> set rcs. rc \<noteq> 0), g')"
proof (induction paths arbitrary: g rcs problem)
  case Nil
  then show ?case by simp
next
  case (Cons p ps)
  from Cons.prems obtain rc g1 rest where
    run: "fs_run e ByCheck (c @ [p]) g = Inr (rc, g1)"
    and rest: "separate_returncodes e c ps g1 = Inr rest"
    and rcs: "rcs = rc # rest"
    by (auto split: sum.splits prod.splits)
  from Cons.IH [OF rest, of "if rc \<noteq> 0 then True else problem"]
  obtain g' where
    "run_separately e c ps (if rc \<noteq> 0 then True else problem) g1
       = Inr ((if rc \<noteq> 0 then True else problem) \<or> (\<exists>rc \<in> set rest. rc \<noteq> 0), g')"
    by blast
  then have "run_separately e c (p # ps) problem g = Inr (problem \<or> (\<exists>rc \<in> set rcs. rc \<noteq> 0), g')"
    using run rcs by auto
  then show ?case by blast
qed

lemma Command_check_aggregate:
  assumes "\<not> separately self"
    and "proc e (events g) (cmd self @ args) = Inr (rc, out)"
    and "args = (if pass_files self then filter_paths (base self) (staged repo) else [])"
  shows "Command_check e self repo g =
           Inr (if rc = 0 then None
                else Some \<lparr>message = None,
                           autofix = (case fix_cmd self of None \<Rightarrow> None
                                      | Some f \<Rightarrow> if f = [] then None else Some (FixCommand (f @ args)))\<rparr>,
                g\<lparr>events := events g @ [Ran ByCheck (cmd self @ args)], printed := printed g @ out\<rparr>)"
  using assms by (simp add: Command_check_def fs_run_def Let_def split: option.splits)

lemma Command_check_separately:
  assumes "separately self"
    and "separate_returncodes e (cmd self) (filter_paths (base self) (staged repo)) g = Inr rcs"
  shows "\<exists>g'. Command_check e self repo g =
           Inr (if \<exists>rc \<in> set rcs. rc \<noteq> 0
                then Some \<lparr>message = None, autofix = map_option FixCommand (fix_cmd self)\<rparr>
                else None, g')"
proof -
  from run_separately_flag [OF assms(2), of False]
  obtain g' where "run_separately e (cmd self) (filter_paths (base self) (staged repo)) False g
       = Inr (\<exists>rc \<in> set rcs. rc \<noteq> 0, g')"
    by auto
  then have "Command_check e self repo g =
           Inr (if \<exists>rc \<in> set rcs. rc \<noteq> 0
                then Some \<lparr>message = None, autofix = map_option FixCommand (fix_cmd self)\<rparr>
                else None, g')"
    using assms(1) by (simp add: Command_check_def)
  then show ?thesis by blast
qed

text \<open>
  C2. One run of \<open>check\<close> of a \<open>Command\<close> returns a Problem if and only if the wrapped command
  exits with a status other than 0 (with \<open>separately\<close>: if and only if one of the per-file
  invocations does), and nothing otherwise. In aggregate mode with files passed, when a
  fix command that is not the empty list was declared, the autofix of the Problem is the fix
  command followed by the filtered staged files that were appended to the check command;
  when no fix command was declared, or the empty list was declared in aggregate mode, the
  autofix is absent.
\<close>

theorem Command_check_spec:
  "(\<not> separately self \<and>
      proc e (events g) (cmd self @ (if pass_files self then filter_paths (base self) (staged repo) else []))
        = Inr (rc, out) \<longrightarrow>
      (\<exists>res g'. Command_check e self repo g = Inr (res, g')
         \<and> (res \<noteq> None) = (rc \<noteq> 0)
         \<and> events g' = events g @
              [Ran ByCheck (cmd self @ (if pass_files self then filter_paths (base self) (staged repo) else []))]
         \<and> (\<forall>p. res = Some p \<longrightarrow>
               (fix_cmd self = None \<longrightarrow> autofix p = None)
             \<and> (fix_cmd self = Some [] \<longrightarrow> autofix p = None)
             \<and> (\<forall>f. fix_cmd self = Some f \<and> f \<noteq> [] \<and> pass_files self \<longrightarrow>
                   autofix p = Some (FixCommand (f @ filter_paths (base self) (staged repo)))))))
   \<and> (separately self \<and>
        separate_returncodes e (cmd self) (filter_paths (base self) (staged repo)) g = Inr rcs \<longrightarrow>
      length rcs = length (filter_paths (base self) (staged repo))
      \<and> (\<exists>res g'. Command_check e self repo g = Inr (res, g')
           \<and> (res \<noteq> None) = (\<exists>rc \<in> set rcs. rc \<noteq> 0)
           \<and> (\<forall>p. res = Some p \<and> fix_cmd self = None \<longrightarrow> autofix p = None)))"
proof (intro conjI impI)
  let ?args = "if pass_files self then filter_paths (base self) (staged repo) else []"
  assume a: "\<not> separately self \<and> proc e (events g) (cmd self @ ?args) = Inr (rc, out)"
  then have "Command_check e self repo g =
           Inr (if rc = 0 then None
                else Some \<lparr>message = None,
                           autofix = (case fix_cmd self of None \<Rightarrow> None
                                      | Some f \<Rightarrow> if f = [] then None else Some (FixCommand (f @ ?args)))\<rparr>,
                g\<lparr>events := events g @ [Ran ByCheck (cmd self @ ?args)], printed := printed g @ out\<rparr>)"
    by (intro Command_check_aggregate) auto
  then show "\<exists>res g'. Command_check e self repo g = Inr (res, g')
         \<and> (res \<noteq> None) = (rc \<noteq> 0)
         \<and> events g' = events g @ [Ran ByCheck (cmd self @ ?args)]
         \<and> (\<forall>p. res = Some p \<longrightarrow>
               (fix_cmd self = None \<longrightarrow> autofix p = None)
             \<and> (fix_cmd self = Some [] \<longrightarrow> autofix p = None)
             \<and> (\<forall>f. fix_cmd self = Some f \<and> f \<noteq> [] \<and> pass_files self \<longrightarrow>
                   autofix p = Some (FixCommand (f @ filter_paths (base self) (staged repo)))))"
    by auto
next
  assume "separately self \<and>
        separate_returncodes e (cmd self) (filter_paths (base self) (staged repo)) g = Inr rcs"
  then show "length rcs = length (filter_paths (base self) (staged repo))"
    by (auto dest: separate_returncodes_length)
next
  assume a: "separately self \<and>
        separate_returncodes e (cmd self) (filter_paths (base self) (staged repo)) g = Inr rcs"
  then obtain g' where "Command_check e self repo g =
           Inr (if \<exists>rc \<in> set rcs. rc \<noteq> 0
                then Some \<lparr>message = None, autofix = map_option FixCommand (fix_cmd self)\<rparr>
                else None, g')"
    using Command_check_separately by blast
  then show "\<exists>res g'. Command_check e self repo g = Inr (res, g')
           \<and> (res \<noteq> None) = (\<exists>rc \<in> set rcs. rc \<noteq> 0)
           \<and> (\<forall>p. res = Some p \<and> fix_cmd self = None \<longrightarrow> autofix p = None)"
    by auto
qed

theorem Command_check_spec_witness:
  "Command_check MockFilesystem mock_PythonFormat mock_repository empty_gateway
     = Inr (Some \<lparr>message = None, autofix = Some (FixCommand [''black'', ''main.py''])\<rparr>,
            \<lparr>events = [Ran ByCheck [''black'', ''--check'', ''main.py'']],
               printed = [''<failed output of black command>'']\<rparr>)
   \<and> (\<exists>g'. Command_check MockFilesystem
              (mock_PythonFormat\<lparr>fix_cmd := None, separately := True,
                                 base := \<lparr>include_patterns = [], exclude_patterns = []\<rparr>\<rparr>)
              mock_repository empty_gateway
            = Inr (Some \<lparr>message = None, autofix = None\<rparr>, g'))"
proof -
  let ?sep = "mock_PythonFormat\<lparr>fix_cmd := None, separately := True,
                                 base := \<lparr>include_patterns = [], exclude_patterns = []\<rparr>\<rparr>"
  have paths: "filter_paths (base mock_PythonFormat) (staged mock_repository) = [''main.py'']"
    by (simp add: mock_PythonFormat_def mock_repository_def filter_paths_def effective_include_def
        fnmatch_def)
  have all_paths: "filter_paths (base ?sep) (staged mock_repository) = [''main.py'', ''ignoreme.py'']"
    by (simp add: mock_repository_def filter_paths_def effective_include_def fnmatch_def)
  have run: "proc MockFilesystem (events empty_gateway)
        (cmd mock_PythonFormat @ (if pass_files mock_PythonFormat
            then filter_paths (base mock_PythonFormat) (staged mock_repository) else []))
      = Inr (1, [''<failed output of black command>''])"
    unfolding paths by (simp add: MockFilesystem_def mock_PythonFormat_def)
  have agg: "\<not> separately mock_PythonFormat"
    by (simp add: mock_PythonFormat_def)
  have codes: "separate_returncodes MockFilesystem (cmd ?sep)
        (filter_paths (base ?sep) (staged mock_repository)) empty_gateway = Inr [1, 1]"
    unfolding all_paths by (simp add: MockFilesystem_def fs_run_def)
  have sep: "separately ?sep"
    by simp
  from Command_check_spec [of mock_PythonFormat MockFilesystem empty_gateway mock_repository 1
      "[''<failed output of black command>'']"] agg run
  obtain res g' where
    r: "Command_check MockFilesystem mock_PythonFormat mock_repository empty_gateway = Inr (res, g')"
    and some: "res \<noteq> None"
    and fx: "\<forall>p. res = Some p \<longrightarrow>
        (\<forall>f. fix_cmd mock_PythonFormat = Some f \<and> f \<noteq> [] \<and> pass_files mock_PythonFormat \<longrightarrow>
           autofix p = Some (FixCommand (f @ filter_paths (base mock_PythonFormat) (staged mock_repository))))"
    by auto
  from some obtain p where p: "res = Some p" by auto
  with fx have "autofix p = Some (FixCommand ([''black''] @ [''main.py'']))"
    unfolding paths by (simp add: mock_PythonFormat_def)
  with r p have first: "Command_check MockFilesystem mock_PythonFormat mock_repository empty_gateway
     = Inr (Some \<lparr>message = None, autofix = Some (FixCommand [''black'', ''main.py''])\<rparr>,
            \<lparr>events = [Ran ByCheck [''black'', ''--check'', ''main.py'']],
               printed = [''<failed output of black command>'']\<rparr>)"
    unfolding Command_check_def paths
    by (auto simp add: mock_PythonFormat_def MockFilesystem_def fs_run_def empty_gateway_def Let_def)
  from Command_check_spec [of ?sep MockFilesystem empty_gateway mock_repository _ _ "[1, 1]"] sep codes
  obtain res2 g2 where
    r2: "Command_check MockFilesystem ?sep mock_repository empty_gateway = Inr (res2, g2)"
    and some2: "res2 \<noteq> None"
    and fx2: "\<forall>p. res2 = Some p \<and> fix_cmd ?sep = None \<longrightarrow> autofix p = None"
    by auto
  from some2 obtain p2 where p2: "res2 = Some p2" by auto
  with fx2 have "autofix p2 = None" by simp
  moreover have "message p2 = None"
    using r2 p2 unfolding Command_check_def all_paths
    by (auto simp add: mock_PythonFormat_def MockFilesystem_def fs_run_def empty_gateway_def
        Let_def split: if_splits)
  ultimately have "p2 = \<lparr>message = None, autofix = None\<rparr>" by simp
  with r2 p2 have "\<exists>g'. Command_check MockFilesystem ?sep mock_repository empty_gateway
            = Inr (Some \<lparr>message = None, autofix = None\<rparr>, g')"
    by blast
  with first show ?thesis by blast
qed

theorem Command_check_empty_fix_counterexample:
  "fix_cmd (mock_PythonFormat\<lparr>fix_cmd := Some []\<rparr>) = Some []
   \<and> pass_files (mock_PythonFormat\<lparr>fix_cmd := Some []\<rparr>)
   \<and> \<not> separately (mock_PythonFormat\<lparr>fix_cmd := Some []\<rparr>)
   \<and> filter_paths (base (mock_PythonFormat\<lparr>fix_cmd := Some []\<rparr>)) (staged mock_repository) = [''main.py'']
   \<and> Command_check MockFilesystem (mock_PythonFormat\<lparr>fix_cmd := Some []\<rparr>) mock_repository empty_gateway
       = Inr (Some \<lparr>message = None, autofix = None\<rparr>,
              \<lparr>events = [Ran ByCheck [''black'', ''--check'', ''main.py'']],
                 printed = [''<failed output of black command>'']\<rparr>)"
  by (simp add: Command_check_def mock_PythonFormat_def mock_repository_def MockFilesystem_def
      fs_run_def empty_gateway_def filter_paths_def effective_include_def fnmatch_def Let_def)

lemma check_flags_none: "(check_flags sub fs = None) = (\<not> list_ex (offending sub) fs)"
  by (induction fs) (auto simp: offending_def split: option.splits)

lemma check_flags_first:
  "list_ex (offending sub) fs \<Longrightarrow>
   \<exists>pre f post. fs = pre @ f # post \<and> \<not> list_ex (offending sub) pre \<and> offending sub f
      \<and> check_flags sub fs = Some (flag_message sub f)"
proof (induction fs)
  case Nil
  then show ?case by simp
next
  case (Cons x xs)
  show ?case
  proof (cases "offending sub x")
    case True
    then have "check_flags sub (x # xs) = Some (flag_message sub x)"
      by (auto simp: offending_def flag_message_def split: option.splits)
    with True have "x # xs = [] @ x # xs \<and> \<not> list_ex (offending sub) [] \<and> offending sub x
        \<and> check_flags sub (x # xs) = Some (flag_message sub x)"
      by simp
    then show ?thesis by blast
  next
    case False
    with Cons.prems have "list_ex (offending sub) xs" by simp
    from Cons.IH [OF this] obtain pre f post where
      xs: "xs = pre @ f # post" and pre: "\<not> list_ex (offending sub) pre" and f: "offending sub f"
      and msg: "check_flags sub xs = Some (flag_message sub f)"
      by blast
    from False have step: "check_flags sub (x # xs) = check_flags sub xs"
      by (auto simp: offending_def split: option.splits)
    have "x # xs = (x # pre) @ f # post \<and> \<not> list_ex (offending sub) (x # pre) \<and> offending sub f
        \<and> check_flags sub (x # xs) = Some (flag_message sub f)"
      using xs pre f msg step False by simp
    then show ?thesis by blast
  qed
qed

lemma flag_message_nonempty: "flag_message sub f \<noteq> []"
  by (simp add: flag_message_def)

lemma check_args_nonempty: "check_args a = Some msg \<Longrightarrow> msg \<noteq> []"
proof -
  assume a: "check_args a = Some msg"
  show "msg \<noteq> []"
  proof (cases "list_ex (offending (subcommand a)) (flags a)")
    case True
    from check_flags_first [OF True] obtain f where
      "check_flags (subcommand a) (flags a) = Some (flag_message (subcommand a) f)" by blast
    with a show ?thesis
      by (auto simp: check_args_def flag_message_nonempty split: if_splits)
  next
    case False
    then have "check_flags (subcommand a) (flags a) = None"
      by (simp add: check_flags_none)
    with a show ?thesis
      by (auto simp: check_args_def split: if_splits)
  qed
qed

lemma handle_args_error: "check_args (parse_args argv argv) = Some msg \<Longrightarrow> handle_args argv = Inl msg"
  by (simp add: handle_args_def Let_def check_args_nonempty)

lemma main_error: "handle_args argv = Inl msg \<Longrightarrow> main argv sys = error_exit False msg"
  by (simp add: main_def)

lemma malformed_rejected: "malformed a \<Longrightarrow> \<exists>msg. check_args a = Some msg"
proof -
  assume m: "malformed a"
  show ?thesis
  proof (cases "list_ex (offending (subcommand a)) (flags a)")
    case True
    from check_flags_first [OF True] obtain f where
      "check_flags (subcommand a) (flags a) = Some (flag_message (subcommand a) f)" by blast
    then show ?thesis by (simp add: check_args_def)
  next
    case False
    with m show ?thesis by (auto simp: malformed_def check_args_def)
  qed
qed

lemma parse_loop_keeps: "set fl \<subseteq> set (snd (parse_loop argv fp pos fl))"
proof (induction argv arbitrary: fp pos fl)
  case Nil
  then show ?case by simp
next
  case (Cons t ts)
  have "set fl \<subseteq> set (dict_set k fl)" for k
    by (auto simp: dict_set_def)
  then show ?case
    using Cons.IH by (auto split: option.splits) blast+
qed

lemma parse_loop_flags:
  "t \<in> set (takeWhile (\<lambda>x. x \<noteq> ''--'') argv) \<Longrightarrow> startswith t ''-'' \<Longrightarrow>
   long_form t \<in> set (snd (parse_loop argv False pos fl))"
proof (induction argv arbitrary: pos fl)
  case Nil
  then show ?case by simp
next
  case (Cons x xs)
  have ins: "k \<in> set (dict_set k fl)" for k
    by (auto simp: dict_set_def)
  show ?case
  proof (cases "x = t")
    case True
    have kept: "k \<in> set (snd (parse_loop xs False pos (dict_set k fl)))" for k
      using ins [of k] parse_loop_keeps [of "dict_set k fl" xs False pos] by blast
    from True show ?thesis
      using Cons.prems kept
      by (auto simp: long_form_def split: option.splits)
  next
    case False
    with Cons.prems have "t \<in> set (takeWhile (\<lambda>x. x \<noteq> ''--'') xs)"
      by (auto split: if_splits)
    then show ?thesis
      using Cons.IH Cons.prems(2) Cons.prems(1) by (auto split: option.splits if_splits)
  qed
qed

lemma parse_loop_forced:
  "parse_loop argv True pos fl = (pos @ filter (\<lambda>t. t \<noteq> ''--'') argv, fl)"
  by (induction argv arbitrary: pos) auto

lemma fold_dict_set:
  "fold dict_set xs acc = acc @ filter (\<lambda>x. x \<notin> set acc) (first_occurrences xs)"
proof (induction xs arbitrary: acc)
  case Nil
  then show ?case by simp
next
  case (Cons x xs)
  show ?case
  proof (cases "x \<in> set acc")
    case True
    have "filter (\<lambda>y. y \<notin> set acc) (filter (\<lambda>y. y \<noteq> x) (first_occurrences xs))
            = filter (\<lambda>y. y \<notin> set acc) (first_occurrences xs)"
      using True by (auto intro: filter_cong)
    with True Cons.IH [of acc] show ?thesis
      by (simp add: dict_set_def)
  next
    case False
    have "filter (\<lambda>y. y \<notin> set (acc @ [x])) (first_occurrences xs)
            = filter (\<lambda>y. y \<notin> set acc) (filter (\<lambda>y. y \<noteq> x) (first_occurrences xs))"
      by (auto intro: filter_cong)
    with False Cons.IH [of "acc @ [x]"] show ?thesis
      by (simp add: dict_set_def)
  qed
qed

lemma parse_loop_tokens:
  "parse_loop argv False pos fl
     = (pos @ positional_tokens argv, fold dict_set (flag_tokens argv) fl)"
proof (induction argv arbitrary: pos fl)
  case Nil
  then show ?case by (simp add: positional_tokens_def flag_tokens_def)
next
  case (Cons t ts)
  show ?case
  proof (cases "t = ''--''")
    case True
    then show ?thesis
      by (simp add: parse_loop_forced positional_tokens_def flag_tokens_def)
  next
    case False
    then show ?thesis
      using Cons.IH
      by (auto simp: positional_tokens_def flag_tokens_def long_form_def split: option.splits)
  qed
qed

lemma parse_args_tokens:
  "flags (parse_args u argv) = first_occurrences (flag_tokens argv)
   \<and> (case positional_tokens argv of
         [] \<Rightarrow> subcommand (parse_args u argv) = ''check'' \<and> positional (parse_args u argv) = []
       | sub # others \<Rightarrow>
           subcommand (parse_args u argv) = sub \<and> positional (parse_args u argv) = others)"
  by (simp add: parse_args_def parse_loop_tokens fold_dict_set split: list.splits)

text \<open>
  C5. For every invocation with an unknown flag, an unknown subcommand, a flag that is not
  valid for the subcommand, or a positional argument after the subcommand, the program prints
  an error message and exits with status 1 before it loads the configuration file and before
  any Check runs. The first positional token is the subcommand and the flags are the tokens
  that start with \<open>-\<close> before the first \<open>--\<close>, in their long form and in the order of first
  appearance. With an extra positional argument the message is the fixed text
  \<open>precommit does not take positional arguments\<close>; with none and an unknown subcommand it
  names that subcommand; with none, a known subcommand and both \<open>--color\<close> and \<open>--no-color\<close>
  it is the fixed text about the two; with none, a known subcommand and not both of them it
  names the first flag that is unknown or not valid for the subcommand.
\<close>

theorem main_rejects_malformed:
  "(let a = parse_args argv argv; sub = subcommand a in
      (\<forall>t \<in> set (takeWhile (\<lambda>x. x \<noteq> ''--'') argv). startswith t ''-'' \<longrightarrow> long_form t \<in> set (flags a))
    \<and> flags a = first_occurrences (flag_tokens argv)
    \<and> (case positional_tokens argv of
          [] \<Rightarrow> sub = ''check'' \<and> positional a = []
        | first # others \<Rightarrow> sub = first \<and> positional a = others)
    \<and> (malformed a \<longrightarrow>
         (\<exists>msg. handle_args argv = Inl msg
            \<and> main argv sys = \<lparr>exit_status = 1, stderr = [''Error: '' @ msg], config_loaded = False,
                                written = [], engine = None\<rparr>))
    \<and> (positional a \<noteq> [] \<longrightarrow>
         handle_args argv = Inl ''precommit does not take positional arguments'')
    \<and> (positional a = [] \<and> sub \<notin> set SUBCOMMANDS \<longrightarrow>
         handle_args argv = Inl (''unknown subcommand: '' @ sub))
    \<and> (positional a = [] \<and> sub \<in> set SUBCOMMANDS
          \<and> ''--no-color'' \<in> set (flags a) \<and> ''--color'' \<in> set (flags a) \<longrightarrow>
         handle_args argv = Inl ''--color and --no-color are incompatible'')
    \<and> (positional a = [] \<and> sub \<in> set SUBCOMMANDS
          \<and> \<not> (''--no-color'' \<in> set (flags a) \<and> ''--color'' \<in> set (flags a))
          \<and> list_ex (offending sub) (flags a) \<longrightarrow>
         (\<exists>pre f post. flags a = pre @ f # post \<and> \<not> list_ex (offending sub) pre \<and> offending sub f
            \<and> handle_args argv = Inl (flag_message sub f))))"
proof -
  define a where "a = parse_args argv argv"
  define sub where "sub = subcommand a"
  have tokens: "\<forall>t \<in> set (takeWhile (\<lambda>x. x \<noteq> ''--'') argv). startswith t ''-'' \<longrightarrow> long_form t \<in> set (flags a)"
  proof (intro ballI impI)
    fix t
    assume "t \<in> set (takeWhile (\<lambda>x. x \<noteq> ''--'') argv)" and "startswith t ''-''"
    then have "long_form t \<in> set (snd (parse_loop argv False [] []))"
      by (rule parse_loop_flags)
    then show "long_form t \<in> set (flags a)"
      by (auto simp: a_def parse_args_def split: prod.splits list.splits)
  qed
  have parsed: "flags a = first_occurrences (flag_tokens argv)
    \<and> (case positional_tokens argv of
          [] \<Rightarrow> sub = ''check'' \<and> positional a = []
        | first # others \<Rightarrow> sub = first \<and> positional a = others)"
    unfolding a_def sub_def by (rule parse_args_tokens)
  have rejected: "\<exists>msg. handle_args argv = Inl msg
            \<and> main argv sys = \<lparr>exit_status = 1, stderr = [''Error: '' @ msg], config_loaded = False,
                                written = [], engine = None\<rparr>" if "malformed a"
  proof -
    from that obtain msg where "check_args a = Some msg"
      using malformed_rejected by blast
    then have h: "handle_args argv = Inl msg"
      unfolding a_def by (rule handle_args_error)
    then have "main argv sys = error_exit False msg"
      by (rule main_error)
    with h show ?thesis
      by (simp add: error_exit_def)
  qed
  have pos: "handle_args argv = Inl ''precommit does not take positional arguments''"
    if "positional a \<noteq> []"
  proof -
    from that have "check_args a = Some ''precommit does not take positional arguments''"
      by (simp add: check_args_def)
    then show ?thesis unfolding a_def by (rule handle_args_error)
  qed
  have unknown: "handle_args argv = Inl (''unknown subcommand: '' @ sub)"
    if "positional a = [] \<and> sub \<notin> set SUBCOMMANDS"
  proof -
    from that have "check_args a = Some (''unknown subcommand: '' @ sub)"
      by (simp add: check_args_def sub_def)
    then show ?thesis unfolding a_def by (rule handle_args_error)
  qed
  have colors: "handle_args argv = Inl ''--color and --no-color are incompatible''"
    if "positional a = [] \<and> sub \<in> set SUBCOMMANDS
          \<and> ''--no-color'' \<in> set (flags a) \<and> ''--color'' \<in> set (flags a)"
  proof -
    from that have "check_args a = Some ''--color and --no-color are incompatible''"
      by (simp add: check_args_def sub_def)
    then show ?thesis unfolding a_def by (rule handle_args_error)
  qed
  have flags: "\<exists>pre f post. flags a = pre @ f # post \<and> \<not> list_ex (offending sub) pre \<and> offending sub f
            \<and> handle_args argv = Inl (flag_message sub f)"
    if "positional a = [] \<and> sub \<in> set SUBCOMMANDS
          \<and> \<not> (''--no-color'' \<in> set (flags a) \<and> ''--color'' \<in> set (flags a))
          \<and> list_ex (offending sub) (flags a)"
  proof -
    from that have "list_ex (offending sub) (flags a)" by simp
    from check_flags_first [OF this] obtain pre f post where
      split: "flags a = pre @ f # post" and pre: "\<not> list_ex (offending sub) pre"
      and f: "offending sub f" and msg: "check_flags sub (flags a) = Some (flag_message sub f)"
      by blast
    from that msg have "check_args a = Some (flag_message sub f)"
      by (auto simp add: check_args_def sub_def)
    then have "handle_args argv = Inl (flag_message sub f)"
      unfolding a_def by (rule handle_args_error)
    with split pre f show ?thesis by blast
  qed
  show ?thesis
    unfolding Let_def a_def [symmetric] sub_def [symmetric]
    using tokens parsed rejected pos unknown colors flags by blast
qed

theorem main_rejects_malformed_witness:
  "main [''fix'', ''--bogus''] mock_system
     = \<lparr>exit_status = 1, stderr = [''Error: unknown flag: --bogus''], config_loaded = False,
        written = [], engine = None\<rparr>"
proof -
  have a: "parse_args [''fix'', ''--bogus''] [''fix'', ''--bogus'']
             = \<lparr>subcommand = ''fix'', positional = [], flags = [''--bogus'']\<rparr>"
    by (simp add: parse_args_def SHORT_FLAGS_def dict_set_def)
  have bad: "malformed (parse_args [''fix'', ''--bogus''] [''fix'', ''--bogus''])"
    unfolding a by (simp add: malformed_def offending_def FLAGS_def)
  have h: "handle_args [''fix'', ''--bogus''] = Inl ''unknown flag: --bogus''"
    unfolding handle_args_def a by (simp add: check_args_def SUBCOMMANDS_def FLAGS_def)
  from main_rejects_malformed [of "[''fix'', ''--bogus'']" mock_system] bad
  obtain msg where "handle_args [''fix'', ''--bogus''] = Inl msg"
    and "main [''fix'', ''--bogus''] mock_system
           = \<lparr>exit_status = 1, stderr = [''Error: '' @ msg], config_loaded = False,
              written = [], engine = None\<rparr>"
    unfolding Let_def by blast
  with h show ?thesis by simp
qed

theorem main_message_counterexample:
  "main [''check'', ''extra''] mock_system
     = \<lparr>exit_status = 1, stderr = [''Error: precommit does not take positional arguments''],
        config_loaded = False, written = [], engine = None\<rparr>
   \<and> \<not> contains ''extra'' ''Error: precommit does not take positional arguments''
   \<and> main [''--color'', ''--no-color'', ''--bogus''] mock_system
     = \<lparr>exit_status = 1, stderr = [''Error: --color and --no-color are incompatible''],
        config_loaded = False, written = [], engine = None\<rparr>
   \<and> \<not> contains ''--bogus'' ''Error: --color and --no-color are incompatible''"
proof -
  have a1: "parse_args [''check'', ''extra''] [''check'', ''extra'']
             = \<lparr>subcommand = ''check'', positional = [''extra''], flags = []\<rparr>"
    by (simp add: parse_args_def)
  have a2: "parse_args [''--color'', ''--no-color'', ''--bogus''] [''--color'', ''--no-color'', ''--bogus'']
             = \<lparr>subcommand = ''check'', positional = [], flags = [''--color'', ''--no-color'', ''--bogus'']\<rparr>"
    by (simp add: parse_args_def SHORT_FLAGS_def dict_set_def)
  have m1: "main [''check'', ''extra''] mock_system
     = \<lparr>exit_status = 1, stderr = [''Error: precommit does not take positional arguments''],
        config_loaded = False, written = [], engine = None\<rparr>"
    unfolding main_def handle_args_def a1 by (simp add: check_args_def error_exit_def)
  have m2: "main [''--color'', ''--no-color'', ''--bogus''] mock_system
     = \<lparr>exit_status = 1, stderr = [''Error: --color and --no-color are incompatible''],
        config_loaded = False, written = [], engine = None\<rparr>"
    unfolding main_def handle_args_def a2 by (simp add: check_args_def error_exit_def SUBCOMMANDS_def)
  have c1: "\<not> contains ''extra'' ''Error: precommit does not take positional arguments''"
    by simp
  have c2: "\<not> contains ''--bogus'' ''Error: --color and --no-color are incompatible''"
    by simp
  show ?thesis
    using m1 m2 c1 c2 by blast
qed

lemma engine_commands_append:
  "engine_commands (xs @ ys) = engine_commands xs @ engine_commands ys"
  by (induction xs rule: engine_commands.induct) auto

lemma fs_run_engine:
  "fs_run e who c g = Inr (rc, g') \<Longrightarrow> who \<noteq> ByEngine \<Longrightarrow>
   engine_commands (events g') = engine_commands (events g)"
  by (auto simp: fs_run_def engine_commands_append split: sum.splits prod.splits)

lemma run_separately_engine:
  "run_separately e c paths problem g = Inr (res, g') \<Longrightarrow>
   engine_commands (events g') = engine_commands (events g)"
proof (induction paths arbitrary: problem g)
  case Nil
  then show ?case by simp
next
  case (Cons p ps)
  from Cons.prems obtain rc g1 where
    run: "fs_run e ByCheck (c @ [p]) g = Inr (rc, g1)"
    and rest: "run_separately e c ps (if rc \<noteq> 0 then True else problem) g1 = Inr (res, g')"
    by (auto split: sum.splits prod.splits)
  from fs_run_engine [OF run] have "engine_commands (events g1) = engine_commands (events g)"
    by simp
  with Cons.IH [OF rest] show ?case by simp
qed

lemma Command_check_engine:
  "Command_check e self repo g = Inr (res, g') \<Longrightarrow>
   engine_commands (events g') = engine_commands (events g)"
proof (cases "separately self")
  case True
  assume "Command_check e self repo g = Inr (res, g')"
  with True obtain flag where
    "run_separately e (cmd self) (filter_paths (base self) (staged repo)) False g = Inr (flag, g')"
    by (auto simp: Command_check_def split: sum.splits prod.splits if_splits)
  then show ?thesis by (rule run_separately_engine)
next
  case False
  assume "Command_check e self repo g = Inr (res, g')"
  with False have "\<exists>rc. fs_run e ByCheck
      (cmd self @ (if pass_files self then filter_paths (base self) (staged repo) else [])) g
        = Inr (rc, g')"
    by (auto simp: Command_check_def Let_def split: sum.splits prod.splits if_splits)
  then show ?thesis by (auto dest: fs_run_engine)
qed

lemma run_check_engine:
  "run_check e repo c g = Inr (res, g') \<Longrightarrow>
   engine_commands (events g') = engine_commands (events g)"
proof (cases c)
  case (NoStagedAndUnstagedChanges b)
  assume "run_check e repo c g = Inr (res, g')"
  with NoStagedAndUnstagedChanges show ?thesis
    by (auto simp: NoStagedAndUnstagedChanges_check_def Let_def fs_print_def split: if_splits)
next
  case (DoNotSubmit b)
  assume "run_check e repo c g = Inr (res, g')"
  with DoNotSubmit show ?thesis
    by (auto simp: DoNotSubmit_check_def fs_print_def split: sum.splits if_splits)
next
  case (NoWhitespaceInFilePath b)
  assume "run_check e repo c g = Inr (res, g')"
  with NoWhitespaceInFilePath show ?thesis
    by (auto simp: NoWhitespaceInFilePath_check_def Let_def fs_print_def split: if_splits)
next
  case (Command cm)
  assume "run_check e repo c g = Inr (res, g')"
  with Command show ?thesis
    by (auto dest: Command_check_engine)
next
  case (Custom n f body)
  assume "run_check e repo c g = Inr (res, g')"
  with Custom show ?thesis
    by (auto split: sum.splits prod.splits)
qed

lemma apply_autofix_engine:
  "apply_autofix e a g = Inr g' \<Longrightarrow> engine_commands (events g') = engine_commands (events g)"
  by (cases a) (auto simp: engine_commands_append split: sum.splits prod.splits dest: fs_run_engine)

lemma fix_step_engine:
  assumes "fix_step e pc repo en st = Inr st'"
  shows "engine_commands (events (gw st')) = engine_commands (events (gw st))"
proof (cases "skipped pc en")
  case True
  with assms show ?thesis by (simp add: fix_step_def)
next
  case False
  with assms obtain res g1 where
    run: "run_check e repo (the_check en) ((gw st)\<lparr>printed := []\<rparr>) = Inr (res, g1)"
    by (auto simp: fix_step_def split: sum.splits)
  from run_check_engine [OF run]
  have g1: "engine_commands (events g1) = engine_commands (events (gw st))" by simp
  show ?thesis
  proof (cases "\<exists>p a. res = Some p \<and> autofix p = Some a \<and> has_autofix p \<and> is_fixable (the_check en) \<and> \<not> dry_run pc")
    case True
    then obtain p a where p: "res = Some p" "autofix p = Some a" "has_autofix p"
      "is_fixable (the_check en)" "\<not> dry_run pc" by blast
    with assms False run obtain g2 where
      fx: "apply_autofix e a g1 = Inr g2" and st': "gw st' = g2\<lparr>printed := []\<rparr>"
      by (auto simp: fix_step_def Let_def split: sum.splits simp del: has_autofix.simps)
    from apply_autofix_engine [OF fx] g1 st' show ?thesis by simp
  next
    case no_fix: False
    with assms False run have "gw st' = g1\<lparr>printed := []\<rparr>"
      by (auto simp: fix_step_def Let_def split: sum.splits option.splits if_splits
          simp del: has_autofix.simps)
    with g1 show ?thesis by simp
  qed
qed

lemma fix_loop_engine:
  "fix_loop e pc repo ens st = Inr st' \<Longrightarrow>
   engine_commands (events (gw st')) = engine_commands (events (gw st))"
proof (induction ens arbitrary: st)
  case Nil
  then show ?case by simp
next
  case (Cons en ens)
  from Cons.prems obtain st1 where
    step: "fix_step e pc repo en st = Inr st1" and rest: "fix_loop e pc repo ens st1 = Inr st'"
    by (auto split: sum.splits)
  from fix_step_engine [OF step] Cons.IH [OF rest] show ?case by simp
qed

lemma restage_files_set:
  "set (restage_files repo)
     = (set (staged repo) \<union> set (unstaged repo)) - set (staged_for_deletion repo)"
  by (auto simp: restage_files_def)

lemma restage_engine:
  assumes "restage e pc repo st = Inr st'"
  shows "events (gw st') = events (gw st) @
           (if problems_fixed st > 0 \<and> \<not> dry_run pc
            then [Ran ByEngine ([''git'', ''add''] @ restage_files repo)] else [])
         \<and> problems_fixed st' = problems_fixed st"
  using assms by (auto simp: restage_def fs_run_def split: if_splits sum.splits prod.splits)

lemma tests_fix_command:
  "fix_mode MockFilesystem mock_precommit mock_repository empty_gateway
     = Inr \<lparr>checks_run = 4, fixable_checks_run = 2, problems_found = 2, problems_fixable = 2,
            problems_fixed = 2,
            report = [''o--[ NoStagedAndUnstagedChanges ]'', ''|  main.py'', ''o--[ fixed! ]'', [],
                      ''o--[ PythonFormat ]'', ''|  <failed output of black command>'',
                      ''o--[ fixed! ]'', [], [],
                      ''Ran 2 fixable checks. Detected 2 issues. Fixed 2 of them.''],
            gw = \<lparr>events = [Ran ByAutofix [''git'', ''add'', ''main.py''],
                             Ran ByCheck [''black'', ''--check'', ''main.py''],
                             Ran ByAutofix [''black'', ''main.py''],
                             Ran ByEngine [''git'', ''add'', ''main.py'', ''ignoreme.py'']],
                   printed = []\<rparr>\<rparr>"
  by code_simp

lemma fix_step_applied:
  assumes "\<not> skipped pc en"
    and "run_check e repo (the_check en) ((gw st)\<lparr>printed := []\<rparr>) = Inr (Some p, g1)"
    and "autofix p = Some a" and "has_autofix p" and "is_fixable (the_check en)"
    and "\<not> dry_run pc" and "apply_autofix e a g1 = Inr g2"
  shows "\<exists>st'. fix_step e pc repo en st = Inr st' \<and> gw st' = g2\<lparr>printed := []\<rparr>
           \<and> problems_fixed st' = problems_fixed st + 1"
  using assms by (simp add: fix_step_def Let_def del: has_autofix.simps)

lemma fix_step_not_applied:
  assumes "\<not> skipped pc en"
    and "run_check e repo (the_check en) ((gw st)\<lparr>printed := []\<rparr>) = Inr (res, g1)"
    and "\<forall>p a. res = Some p \<and> autofix p = Some a \<longrightarrow>
           \<not> (has_autofix p \<and> is_fixable (the_check en) \<and> \<not> dry_run pc)"
  shows "\<exists>st'. fix_step e pc repo en st = Inr st' \<and> gw st' = g1\<lparr>printed := []\<rparr>
           \<and> (\<not> dry_run pc \<longrightarrow> problems_fixed st' = problems_fixed st)"
  using assms
  by (auto simp: fix_step_def Let_def split: option.splits simp del: has_autofix.simps)

lemma fix_loop_applied:
  "applied_fixes e pc repo ens (gw st) = Inr (applied, g_end) \<Longrightarrow>
   \<exists>st'. fix_loop e pc repo ens st = Inr st' \<and> gw st' = g_end
     \<and> (\<not> dry_run pc \<longrightarrow> problems_fixed st' = problems_fixed st + length applied)
     \<and> (dry_run pc \<longrightarrow> applied = [])"
proof (induction ens arbitrary: st applied)
  case Nil
  then show ?case by simp
next
  case (Cons en ens)
  show ?case
  proof (cases "skipped pc en")
    case True
    with Cons.prems have "applied_fixes e pc repo ens (gw st) = Inr (applied, g_end)" by simp
    from Cons.IH [OF this] True show ?thesis
      by (simp add: fix_step_def)
  next
    case False
    with Cons.prems obtain res g1 where
      run: "run_check e repo (the_check en) ((gw st)\<lparr>printed := []\<rparr>) = Inr (res, g1)"
      by (auto split: sum.splits)
    show ?thesis
    proof (cases "\<exists>p a. res = Some p \<and> autofix p = Some a \<and> has_autofix p
                     \<and> is_fixable (the_check en) \<and> \<not> dry_run pc")
      case True
      then obtain p a where p: "res = Some p" "autofix p = Some a" "has_autofix p"
        "is_fixable (the_check en)" "\<not> dry_run pc" by blast
      with Cons.prems False run obtain g2 rest where
        fx: "apply_autofix e a g1 = Inr g2"
        and rest: "applied_fixes e pc repo ens (g2\<lparr>printed := []\<rparr>) = Inr (rest, g_end)"
        and app: "applied = a # rest"
        by (auto split: sum.splits prod.splits simp del: has_autofix.simps)
      from fix_step_applied [OF False _ p(2) p(3) p(4) p(5) fx, of repo st] run p(1)
      obtain st1 where step: "fix_step e pc repo en st = Inr st1"
        and g: "gw st1 = g2\<lparr>printed := []\<rparr>"
        and n: "problems_fixed st1 = problems_fixed st + 1"
        by auto
      from rest g have "applied_fixes e pc repo ens (gw st1) = Inr (rest, g_end)" by simp
      from Cons.IH [OF this] obtain st' where
        "fix_loop e pc repo ens st1 = Inr st'" "gw st' = g_end"
        "\<not> dry_run pc \<longrightarrow> problems_fixed st' = problems_fixed st1 + length rest"
        by blast
      with step n app p(5) show ?thesis by auto
    next
      case none: False
      with Cons.prems False run
      have rest: "applied_fixes e pc repo ens (g1\<lparr>printed := []\<rparr>) = Inr (applied, g_end)"
        by (auto split: option.splits if_splits simp del: has_autofix.simps)
      from none have "\<forall>p a. res = Some p \<and> autofix p = Some a \<longrightarrow>
           \<not> (has_autofix p \<and> is_fixable (the_check en) \<and> \<not> dry_run pc)"
        by blast
      from fix_step_not_applied [OF False run this]
      obtain st1 where step: "fix_step e pc repo en st = Inr st1"
        and g: "gw st1 = g1\<lparr>printed := []\<rparr>"
        and n: "\<not> dry_run pc \<longrightarrow> problems_fixed st1 = problems_fixed st"
        by blast
      from rest g have "applied_fixes e pc repo ens (gw st1) = Inr (applied, g_end)" by simp
      from Cons.IH [OF this] obtain st' where
        "fix_loop e pc repo ens st1 = Inr st'" "gw st' = g_end"
        "\<not> dry_run pc \<longrightarrow> problems_fixed st' = problems_fixed st1 + length applied"
        "dry_run pc \<longrightarrow> applied = []"
        by blast
      with step n show ?thesis by auto
    qed
  qed
qed

lemma autofix_events_append:
  "autofix_events (xs @ ys) = autofix_events xs @ autofix_events ys"
  by (induction xs rule: autofix_events.induct) auto

lemma by_check_no_autofix: "list_all by_check new \<Longrightarrow> autofix_events new = []"
  by (induction new rule: autofix_events.induct) auto

lemma by_check_not_engine: "list_all by_check new \<Longrightarrow> engine_commands new = []"
  by (induction new rule: engine_commands.induct) auto

lemma run_separately_events:
  "run_separately e c paths problem g = Inr (res, g') \<Longrightarrow>
   \<exists>new. events g' = events g @ new \<and> list_all by_check new"
proof (induction paths arbitrary: problem g)
  case Nil
  then show ?case by simp
next
  case (Cons p ps)
  from Cons.prems obtain rc g1 where
    run: "fs_run e ByCheck (c @ [p]) g = Inr (rc, g1)"
    and rest: "run_separately e c ps (if rc \<noteq> 0 then True else problem) g1 = Inr (res, g')"
    by (auto split: sum.splits prod.splits)
  from run have g1: "events g1 = events g @ [Ran ByCheck (c @ [p])]"
    by (auto simp: fs_run_def split: sum.splits prod.splits)
  from Cons.IH [OF rest] obtain new where "events g' = events g1 @ new" "list_all by_check new"
    by blast
  with g1 have "events g' = events g @ (Ran ByCheck (c @ [p]) # new)
      \<and> list_all by_check (Ran ByCheck (c @ [p]) # new)"
    by simp
  then show ?case by blast
qed

lemma Command_check_events:
  assumes "Command_check e self repo g = Inr (res, g')"
  shows "\<exists>new. events g' = events g @ new \<and> list_all by_check new"
proof (cases "separately self")
  case True
  with assms obtain flag where
    "run_separately e (cmd self) (filter_paths (base self) (staged repo)) False g = Inr (flag, g')"
    by (auto simp: Command_check_def split: sum.splits prod.splits if_splits)
  then show ?thesis by (rule run_separately_events)
next
  case False
  let ?c = "cmd self @ (if pass_files self then filter_paths (base self) (staged repo) else [])"
  from assms False have "\<exists>rc. fs_run e ByCheck ?c g = Inr (rc, g')"
    by (auto simp: Command_check_def Let_def split: sum.splits prod.splits if_splits)
  then have "events g' = events g @ [Ran ByCheck ?c] \<and> list_all by_check [Ran ByCheck ?c]"
    by (auto simp: fs_run_def split: sum.splits prod.splits)
  then show ?thesis by blast
qed

lemma run_check_events:
  assumes "run_check e repo c g = Inr (res, g')"
  shows "\<exists>new. events g' = events g @ new \<and> list_all by_check new"
proof (cases c)
  case (NoStagedAndUnstagedChanges b)
  with assms have "events g' = events g @ [] \<and> list_all by_check []"
    by (auto simp: NoStagedAndUnstagedChanges_check_def Let_def fs_print_def split: if_splits)
  then show ?thesis by blast
next
  case (DoNotSubmit b)
  with assms have "events g' = events g @ [] \<and> list_all by_check []"
    by (auto simp: DoNotSubmit_check_def fs_print_def split: sum.splits if_splits)
  then show ?thesis by blast
next
  case (NoWhitespaceInFilePath b)
  with assms have "events g' = events g @ [] \<and> list_all by_check []"
    by (auto simp: NoWhitespaceInFilePath_check_def Let_def fs_print_def split: if_splits)
  then show ?thesis by blast
next
  case (Command cm)
  with assms show ?thesis
    by (auto dest: Command_check_events)
next
  case (Custom n f body)
  with assms have "events g' = events g @ [] \<and> list_all by_check []"
    by (auto split: sum.splits prod.splits)
  then show ?thesis by blast
qed

lemma apply_autofix_events:
  "apply_autofix e a g = Inr g' \<Longrightarrow> events g' = events g @ [fix_event a]"
  by (cases a) (auto simp: fs_run_def split: sum.splits prod.splits)

lemma applied_fixes_events:
  "applied_fixes e pc repo ens g = Inr (applied, g_end) \<Longrightarrow>
   autofix_events (events g_end) = autofix_events (events g) @ map fix_event applied
   \<and> engine_commands (events g_end) = engine_commands (events g)"
proof (induction ens arbitrary: g applied)
  case Nil
  then show ?case by simp
next
  case (Cons en ens)
  show ?case
  proof (cases "skipped pc en")
    case True
    with Cons.prems have "applied_fixes e pc repo ens g = Inr (applied, g_end)" by simp
    from Cons.IH [OF this] show ?thesis .
  next
    case False
    with Cons.prems obtain res g1 where
      run: "run_check e repo (the_check en) (g\<lparr>printed := []\<rparr>) = Inr (res, g1)"
      by (auto split: sum.splits)
    from run_check_events [OF run] obtain new where
      "events g1 = events g @ new" "list_all by_check new"
      by auto
    then have g1: "autofix_events (events g1) = autofix_events (events g)"
      "engine_commands (events g1) = engine_commands (events g)"
      by (simp_all add: autofix_events_append engine_commands_append by_check_no_autofix
          by_check_not_engine)
    show ?thesis
    proof (cases "\<exists>p a. res = Some p \<and> autofix p = Some a \<and> has_autofix p
                     \<and> is_fixable (the_check en) \<and> \<not> dry_run pc")
      case True
      then obtain p a where p: "res = Some p" "autofix p = Some a" "has_autofix p"
        "is_fixable (the_check en)" "\<not> dry_run pc" by blast
      with Cons.prems False run obtain g2 rest where
        fx: "apply_autofix e a g1 = Inr g2"
        and rest: "applied_fixes e pc repo ens (g2\<lparr>printed := []\<rparr>) = Inr (rest, g_end)"
        and app: "applied = a # rest"
        by (auto split: sum.splits prod.splits simp del: has_autofix.simps)
      from apply_autofix_events [OF fx] g1
      have g2: "autofix_events (events g2) = autofix_events (events g) @ [fix_event a]"
        "engine_commands (events g2) = engine_commands (events g)"
        by (cases a; simp add: autofix_events_append engine_commands_append)+
      from Cons.IH [OF rest] g2 app show ?thesis by simp
    next
      case none: False
      with Cons.prems False run
      have rest: "applied_fixes e pc repo ens (g1\<lparr>printed := []\<rparr>) = Inr (applied, g_end)"
        by (auto split: option.splits if_splits simp del: has_autofix.simps)
      from Cons.IH [OF rest] g1 show ?thesis by simp
    qed
  qed
qed

text \<open>
  C7. In fix mode, when at least one fix was applied (which a dry run never does), the engine
  issues, after all Checks, one \<open>git add\<close> of every originally staged and originally unstaged
  file that is not staged for deletion, whatever the fixes touched: the history of the run is
  what the Checks and the applied fixes left, followed by that command. When no fix was
  applied the history is what the Checks left. The engine itself issues no other command.
\<close>

theorem fix_mode_restage:
  "(applied_fixes e pc repo (checks pc) g = Inr (applied, g_end) \<longrightarrow>
      autofix_events (events g_end) = autofix_events (events g) @ map fix_event applied
    \<and> engine_commands (events g_end) = engine_commands (events g)
    \<and> (dry_run pc \<longrightarrow> applied = [])
    \<and> (applied = [] \<longrightarrow>
         (\<exists>final. fix_mode e pc repo g = Inr final \<and> events (gw final) = events g_end))
    \<and> (applied \<noteq> [] \<longrightarrow>
         (\<forall>rc out. proc e (events g_end) (restage_command repo) = Inr (rc, out) \<longrightarrow>
            (\<exists>final. fix_mode e pc repo g = Inr final
               \<and> events (gw final) = events g_end @ [Ran ByEngine (restage_command repo)]))))
   \<and> (fix_mode e pc repo g = Inr final \<longrightarrow>
        engine_commands (events (gw final))
          = engine_commands (events g) @
              (if problems_fixed final > 0 \<and> \<not> dry_run pc then [restage_command repo] else []))
   \<and> restage_command repo = [''git'', ''add''] @ restage_files repo
   \<and> set (restage_files repo)
       = (set (staged repo) \<union> set (unstaged repo)) - set (staged_for_deletion repo)"
proof (intro conjI impI allI)
  assume tr: "applied_fixes e pc repo (checks pc) g = Inr (applied, g_end)"
  from applied_fixes_events [OF tr]
  show "autofix_events (events g_end) = autofix_events (events g) @ map fix_event applied"
    and "engine_commands (events g_end) = engine_commands (events g)"
    by simp_all
  from tr have "applied_fixes e pc repo (checks pc) (gw (initial_state g)) = Inr (applied, g_end)"
    by (simp add: initial_state_def)
  from fix_loop_applied [OF this] obtain st where
    loop: "fix_loop e pc repo (checks pc) (initial_state g) = Inr st"
    and g: "gw st = g_end"
    and n: "\<not> dry_run pc \<longrightarrow> problems_fixed st = length applied"
    and d: "dry_run pc \<longrightarrow> applied = []"
    by (auto simp: initial_state_def)
  show "applied = []" if "dry_run pc"
    using d that by simp
  show "\<exists>final. fix_mode e pc repo g = Inr final \<and> events (gw final) = events g_end"
    if "applied = []"
  proof -
    from that n have "\<not> (problems_fixed st > 0 \<and> \<not> dry_run pc)" by auto
    then have "restage e pc repo st = Inr st"
      by (auto simp: restage_def)
    with loop g show ?thesis
      by (simp add: fix_mode_def)
  qed
  show "\<exists>final. fix_mode e pc repo g = Inr final
               \<and> events (gw final) = events g_end @ [Ran ByEngine (restage_command repo)]"
    if "applied \<noteq> []" and "proc e (events g_end) (restage_command repo) = Inr (rc, out)"
    for rc out
  proof -
    from that(1) d have nd: "\<not> dry_run pc" by auto
    with n that(1) have "problems_fixed st > 0" by simp
    with nd that(2) g have "\<exists>st'. restage e pc repo st = Inr st'
        \<and> events (gw st') = events g_end @ [Ran ByEngine (restage_command repo)]"
      by (simp add: restage_def fs_run_def restage_command_def)
    then obtain st' where "restage e pc repo st = Inr st'"
      "events (gw st') = events g_end @ [Ran ByEngine (restage_command repo)]"
      by blast
    with loop show ?thesis
      by (simp add: fix_mode_def)
  qed
next
  assume run: "fix_mode e pc repo g = Inr final"
  then obtain st st' where
    loop: "fix_loop e pc repo (checks pc) (initial_state g) = Inr st"
    and re: "restage e pc repo st = Inr st'"
    and final: "final = st'\<lparr>report := report st' @ [[], fix_summary st']\<rparr>"
    by (auto simp: fix_mode_def split: sum.splits)
  from fix_loop_engine [OF loop]
  have kept: "engine_commands (events (gw st)) = engine_commands (events g)"
    by (simp add: initial_state_def)
  from restage_engine [OF re] have
    ev: "events (gw st') = events (gw st) @
           (if problems_fixed st > 0 \<and> \<not> dry_run pc
            then [Ran ByEngine ([''git'', ''add''] @ restage_files repo)] else [])"
    and fixed: "problems_fixed st' = problems_fixed st"
    by auto
  show "engine_commands (events (gw final))
          = engine_commands (events g) @
              (if problems_fixed final > 0 \<and> \<not> dry_run pc then [restage_command repo] else [])"
    using final ev fixed kept by (simp add: engine_commands_append restage_command_def)
next
  show "restage_command repo = [''git'', ''add''] @ restage_files repo"
    by (simp add: restage_command_def)
  show "set (restage_files repo)
       = (set (staged repo) \<union> set (unstaged repo)) - set (staged_for_deletion repo)"
    by (rule restage_files_set)
qed

theorem fix_mode_restage_witness:
  "(\<exists>final. fix_mode MockFilesystem mock_precommit mock_repository empty_gateway = Inr final
       \<and> events (gw final)
           = [Ran ByAutofix [''git'', ''add'', ''main.py''],
              Ran ByCheck [''black'', ''--check'', ''main.py''],
              Ran ByAutofix [''black'', ''main.py''],
              Ran ByEngine [''git'', ''add'', ''main.py'', ''ignoreme.py'']])
   \<and> (\<exists>final. fix_mode MockFilesystem (mock_precommit\<lparr>dry_run := True\<rparr>) mock_repository
                 empty_gateway = Inr final
       \<and> events (gw final) = [Ran ByCheck [''black'', ''--check'', ''main.py'']])"
proof -
  have tr: "applied_fixes MockFilesystem mock_precommit mock_repository (checks mock_precommit)
              empty_gateway
      = Inr ([FixCommand [''git'', ''add'', ''main.py''], FixCommand [''black'', ''main.py'']],
             \<lparr>events = [Ran ByAutofix [''git'', ''add'', ''main.py''],
                         Ran ByCheck [''black'', ''--check'', ''main.py''],
                         Ran ByAutofix [''black'', ''main.py'']],
               printed = []\<rparr>)"
    by code_simp
  have cmd: "restage_command mock_repository = [''git'', ''add'', ''main.py'', ''ignoreme.py'']"
    by (simp add: restage_command_def restage_files_def mock_repository_def)
  have pr: "proc MockFilesystem
        (events \<lparr>events = [Ran ByAutofix [''git'', ''add'', ''main.py''],
                         Ran ByCheck [''black'', ''--check'', ''main.py''],
                         Ran ByAutofix [''black'', ''main.py'']],
               printed = []\<rparr>) (restage_command mock_repository) = Inr (1, [])"
    unfolding cmd by (simp add: MockFilesystem_def)
  note run = fix_mode_restage [where e = MockFilesystem and pc = mock_precommit
      and repo = mock_repository and g = empty_gateway, THEN conjunct1, THEN mp, OF tr,
      THEN conjunct2, THEN conjunct2, THEN conjunct2, THEN conjunct2]
  have first: "\<exists>final. fix_mode MockFilesystem mock_precommit mock_repository empty_gateway = Inr final
       \<and> events (gw final)
           = [Ran ByAutofix [''git'', ''add'', ''main.py''],
              Ran ByCheck [''black'', ''--check'', ''main.py''],
              Ran ByAutofix [''black'', ''main.py''],
              Ran ByEngine [''git'', ''add'', ''main.py'', ''ignoreme.py'']]"
    using run pr unfolding cmd by auto
  have tr2: "applied_fixes MockFilesystem (mock_precommit\<lparr>dry_run := True\<rparr>) mock_repository
              (checks (mock_precommit\<lparr>dry_run := True\<rparr>)) empty_gateway
      = Inr ([], \<lparr>events = [Ran ByCheck [''black'', ''--check'', ''main.py'']], printed = []\<rparr>)"
    by code_simp
  note dry = fix_mode_restage [where e = MockFilesystem and pc = "mock_precommit\<lparr>dry_run := True\<rparr>"
      and repo = mock_repository and g = empty_gateway, THEN conjunct1, THEN mp, OF tr2,
      THEN conjunct2, THEN conjunct2, THEN conjunct2, THEN conjunct1, THEN mp, OF refl]
  have second: "\<exists>final. fix_mode MockFilesystem (mock_precommit\<lparr>dry_run := True\<rparr>) mock_repository
                 empty_gateway = Inr final
       \<and> events (gw final) = [Ran ByCheck [''black'', ''--check'', ''main.py'']]"
    using dry by simp
  from first second show ?thesis by blast
qed

lemma fix_step_cases:
  assumes "fix_step e pc repo en st = Inr st'"
  shows "st' = st
       \<or> (\<exists>g'. st' = st\<lparr>checks_run := checks_run st + 1,
                          fixable_checks_run := fixable_checks_run st +
                            (if is_fixable (the_check en) then 1 else 0),
                          gw := g'\<rparr>)
       \<or> (\<exists>g' lines. is_fixable (the_check en)
             \<and> st' = st\<lparr>checks_run := checks_run st + 1,
                          fixable_checks_run := fixable_checks_run st + 1,
                          gw := g',
                          problems_found := problems_found st + 1,
                          problems_fixable := problems_fixable st + 1,
                          problems_fixed := problems_fixed st + 1,
                          report := report st @ lines\<rparr>)"
proof (cases "skipped pc en")
  case True
  with assms show ?thesis by (simp add: fix_step_def)
next
  case False
  with assms obtain res g1 where
    run: "run_check e repo (the_check en) ((gw st)\<lparr>printed := []\<rparr>) = Inr (res, g1)"
    by (auto simp: fix_step_def split: sum.splits)
  show ?thesis
  proof (cases "\<exists>p a. res = Some p \<and> autofix p = Some a \<and> has_autofix p \<and> is_fixable (the_check en)")
    case True
    then obtain p a where p: "res = Some p" "autofix p = Some a" "has_autofix p"
      "is_fixable (the_check en)" by blast
    with assms False run obtain g2 where
      "st' = st\<lparr>checks_run := checks_run st + 1,
                  fixable_checks_run := fixable_checks_run st + 1,
                  gw := g1\<lparr>printed := []\<rparr>,
                  problems_found := problems_found st + 1,
                  problems_fixable := problems_fixable st + 1,
                  problems_fixed := problems_fixed st + 1,
                  report := report st @
                    section_lines (get_name (the_check en)) (printed g2) (shown_message pc p)
                      (if dry_run pc then ''would fix'' else ''fixed!''),
                  gw := g2\<lparr>printed := []\<rparr>\<rparr>"
      by (auto simp: fix_step_def Let_def split: sum.splits simp del: has_autofix.simps)
    then have "st' = st\<lparr>checks_run := checks_run st + 1,
                  fixable_checks_run := fixable_checks_run st + 1,
                  gw := g2\<lparr>printed := []\<rparr>,
                  problems_found := problems_found st + 1,
                  problems_fixable := problems_fixable st + 1,
                  problems_fixed := problems_fixed st + 1,
                  report := report st @
                    section_lines (get_name (the_check en)) (printed g2) (shown_message pc p)
                      (if dry_run pc then ''would fix'' else ''fixed!'')\<rparr>"
      by simp
    with p(4) show ?thesis by blast
  next
    case no_fix: False
    with assms False run
    have "st' = st\<lparr>checks_run := checks_run st + 1,
                    fixable_checks_run := fixable_checks_run st +
                      (if is_fixable (the_check en) then 1 else 0),
                    gw := g1\<lparr>printed := []\<rparr>\<rparr>"
      by (auto simp: fix_step_def Let_def split: sum.splits option.splits if_splits
          simp del: has_autofix.simps)
    then show ?thesis by blast
  qed
qed

lemma fix_step_counters:
  assumes "fix_step e pc repo en st = Inr st'" and "fix_counters_ok st"
  shows "fix_counters_ok st'"
  using fix_step_cases [OF assms(1)] assms(2)
  by (auto simp: fix_counters_ok_def)

lemma fix_loop_counters:
  "fix_loop e pc repo ens st = Inr st' \<Longrightarrow> fix_counters_ok st \<Longrightarrow> fix_counters_ok st'"
proof (induction ens arbitrary: st)
  case Nil
  then show ?case by simp
next
  case (Cons en ens)
  from Cons.prems(1) obtain st1 where
    step: "fix_step e pc repo en st = Inr st1" and rest: "fix_loop e pc repo ens st1 = Inr st'"
    by (auto split: sum.splits)
  from fix_step_counters [OF step Cons.prems(2)] Cons.IH [OF rest] show ?case by simp
qed

lemma restage_counters:
  "restage e pc repo st = Inr st' \<Longrightarrow>
   problems_found st' = problems_found st \<and> problems_fixed st' = problems_fixed st
   \<and> fixable_checks_run st' = fixable_checks_run st \<and> report st' = report st"
  by (auto simp: restage_def split: if_splits sum.splits prod.splits)

lemma fix_step_unreported:
  assumes "\<not> skipped pc en"
    and "run_check e repo (the_check en) ((gw st)\<lparr>printed := []\<rparr>) = Inr (res, g1)"
    and "\<forall>p. res = Some p \<longrightarrow> autofix p = None \<or> \<not> is_fixable (the_check en)"
  shows "fix_step e pc repo en st =
           Inr (st\<lparr>checks_run := checks_run st + 1,
                   fixable_checks_run := fixable_checks_run st +
                     (if is_fixable (the_check en) then 1 else 0),
                   gw := g1\<lparr>printed := []\<rparr>\<rparr>)"
  using assms by (auto simp: fix_step_def Let_def split: option.splits simp del: has_autofix.simps)

text \<open>
  C6. In fix mode, an executed Check whose \<open>check\<close> returns a Problem with no autofix, or that
  is not fixable (whatever it returns), adds nothing to the report and leaves both
  \<open>problems_found\<close> and \<open>problems_fixed\<close> as they were. After all Checks the last line of the report is
  \<open>Ran n fixable checks. Detected m issues. Fixed k of them.\<close> with the three counters, of
  which the last two are equal and at most the first.
\<close>

theorem fix_mode_report:
  "(\<not> skipped pc en
      \<and> run_check e repo (the_check en) ((gw st)\<lparr>printed := []\<rparr>) = Inr (res, g1)
      \<and> (\<forall>p. res = Some p \<longrightarrow> autofix p = None \<or> \<not> is_fixable (the_check en)) \<longrightarrow>
      (\<exists>st'. fix_step e pc repo en st = Inr st' \<and> report st' = report st
          \<and> problems_found st' = problems_found st \<and> problems_fixed st' = problems_fixed st))
   \<and> (fix_mode e pc repo g = Inr final \<longrightarrow>
        last (report final)
          = ''Ran '' @ show_nat (fixable_checks_run final) @ '' fixable checks. Detected ''
              @ show_nat (problems_found final) @ '' issues. Fixed ''
              @ show_nat (problems_fixed final) @ '' of them.''
        \<and> problems_found final = problems_fixed final
        \<and> problems_fixed final \<le> fixable_checks_run final)"
proof (intro conjI impI)
  assume "\<not> skipped pc en
      \<and> run_check e repo (the_check en) ((gw st)\<lparr>printed := []\<rparr>) = Inr (res, g1)
      \<and> (\<forall>p. res = Some p \<longrightarrow> autofix p = None \<or> \<not> is_fixable (the_check en))"
  then have "fix_step e pc repo en st =
           Inr (st\<lparr>checks_run := checks_run st + 1,
                   fixable_checks_run := fixable_checks_run st +
                     (if is_fixable (the_check en) then 1 else 0),
                   gw := g1\<lparr>printed := []\<rparr>\<rparr>)"
    by (intro fix_step_unreported) auto
  then show "\<exists>st'. fix_step e pc repo en st = Inr st' \<and> report st' = report st
          \<and> problems_found st' = problems_found st \<and> problems_fixed st' = problems_fixed st"
    by simp
next
  assume run: "fix_mode e pc repo g = Inr final"
  then obtain st st' where
    loop: "fix_loop e pc repo (checks pc) (initial_state g) = Inr st"
    and re: "restage e pc repo st = Inr st'"
    and final: "final = st'\<lparr>report := report st' @ [[], fix_summary st']\<rparr>"
    by (auto simp: fix_mode_def split: sum.splits)
  have "fix_counters_ok (initial_state g)"
    by (simp add: fix_counters_ok_def initial_state_def)
  with fix_loop_counters [OF loop] have ok: "fix_counters_ok st" by simp
  from restage_counters [OF re] have same:
    "problems_found st' = problems_found st" "problems_fixed st' = problems_fixed st"
    "fixable_checks_run st' = fixable_checks_run st"
    by auto
  show "last (report final)
          = ''Ran '' @ show_nat (fixable_checks_run final) @ '' fixable checks. Detected ''
              @ show_nat (problems_found final) @ '' issues. Fixed ''
              @ show_nat (problems_fixed final) @ '' of them.''"
    using final by (simp add: fix_summary_def)
  show "problems_found final = problems_fixed final"
    using final ok same by (simp add: fix_counters_ok_def)
  show "problems_fixed final \<le> fixable_checks_run final"
    using final ok same by (simp add: fix_counters_ok_def)
qed

theorem fix_mode_report_witness:
  "(\<exists>st'. fix_step MockFilesystem mock_precommit mock_repository
             \<lparr>the_check = DoNotSubmit no_patterns, slow = False\<rparr> (initial_state empty_gateway) = Inr st'
        \<and> report st' = [] \<and> problems_found st' = 0 \<and> problems_fixed st' = 0)
   \<and> (\<exists>final. fix_mode MockFilesystem mock_precommit mock_repository empty_gateway = Inr final
        \<and> last (report final) = ''Ran 2 fixable checks. Detected 2 issues. Fixed 2 of them.'')"
proof -
  let ?en = "\<lparr>the_check = DoNotSubmit no_patterns, slow = False\<rparr>"
  have run: "run_check MockFilesystem mock_repository (the_check ?en)
               ((gw (initial_state empty_gateway))\<lparr>printed := []\<rparr>)
      = Inr (Some \<lparr>message = Some (''file contains '' @ [QUOTE] @ ''DO NOT SUBMIT'' @ [QUOTE]),
                    autofix = None\<rparr>,
             \<lparr>events = [], printed = [''ignoreme.py'' @ [NL] @ ''main.py'']\<rparr>)"
    by code_simp
  have "\<not> skipped mock_precommit ?en"
    by (simp add: skipped_def)
  with run fix_mode_report [where pc = mock_precommit and en = ?en and e = MockFilesystem
      and repo = mock_repository and st = "initial_state empty_gateway"
      and res = "Some \<lparr>message = Some (''file contains '' @ [QUOTE] @ ''DO NOT SUBMIT'' @ [QUOTE]), autofix = None\<rparr>"
      and ?g1.0 = "\<lparr>events = [], printed = [''ignoreme.py'' @ [NL] @ ''main.py'']\<rparr>"]
  have "\<exists>st'. fix_step MockFilesystem mock_precommit mock_repository ?en (initial_state empty_gateway) = Inr st'
          \<and> report st' = report (initial_state empty_gateway)
          \<and> problems_found st' = problems_found (initial_state empty_gateway)
          \<and> problems_fixed st' = problems_fixed (initial_state empty_gateway)"
    by simp
  then have first: "\<exists>st'. fix_step MockFilesystem mock_precommit mock_repository ?en (initial_state empty_gateway) = Inr st'
        \<and> report st' = [] \<and> problems_found st' = 0 \<and> problems_fixed st' = 0"
    by (simp add: initial_state_def)
  have two: "show_nat 2 = ''2''" by code_simp
  from tests_fix_command obtain final where
    f: "fix_mode MockFilesystem mock_precommit mock_repository empty_gateway = Inr final"
    and counters: "fixable_checks_run final = 2" "problems_found final = 2" "problems_fixed final = 2"
    by simp
  from fix_mode_report [where pc = mock_precommit and e = MockFilesystem and repo = mock_repository
      and g = empty_gateway and final = final] f
  have "last (report final)
          = ''Ran '' @ show_nat (fixable_checks_run final) @ '' fixable checks. Detected ''
              @ show_nat (problems_found final) @ '' issues. Fixed ''
              @ show_nat (problems_fixed final) @ '' of them.''"
    by blast
  then have "last (report final) = ''Ran 2 fixable checks. Detected 2 issues. Fixed 2 of them.''"
    by (simp add: counters two)
  with f first show ?thesis by blast
qed

lemma check_loop_results:
  "check_results e pc repo ens (gw st) = Inr rs \<Longrightarrow>
   \<exists>st'. check_loop e pc repo ens st = Inr st'
     \<and> problems_found st' = problems_found st + length (filter (\<lambda>r. r \<noteq> None) rs)
     \<and> checks_run st' = checks_run st + length rs"
proof (induction ens arbitrary: st rs)
  case Nil
  then show ?case by simp
next
  case (Cons en ens)
  show ?case
  proof (cases "skipped pc en")
    case True
    with Cons.prems have "check_results e pc repo ens (gw st) = Inr rs" by simp
    from Cons.IH [OF this] True show ?thesis
      by (simp add: check_step_def)
  next
    case False
    with Cons.prems obtain res g1 rest where
      run: "run_check e repo (the_check en) ((gw st)\<lparr>printed := []\<rparr>) = Inr (res, g1)"
      and rest: "check_results e pc repo ens (g1\<lparr>printed := []\<rparr>) = Inr rest"
      and rs: "rs = res # rest"
      by (auto split: sum.splits prod.splits)
    from False run obtain st1 where
      step: "check_step e pc repo en st = Inr st1"
      and g: "gw st1 = g1\<lparr>printed := []\<rparr>"
      and found: "problems_found st1 = problems_found st + (if res = None then 0 else 1)"
      and ran: "checks_run st1 = checks_run st + 1"
      by (simp add: check_step_def)
    from rest g have "check_results e pc repo ens (gw st1) = Inr rest" by simp
    from Cons.IH [OF this] obtain st' where
      "check_loop e pc repo ens st1 = Inr st'"
      "problems_found st' = problems_found st1 + length (filter (\<lambda>r. r \<noteq> None) rest)"
      "checks_run st' = checks_run st1 + length rest"
      by blast
    with step found ran rs show ?thesis by auto
  qed
qed

lemma check_mode_results:
  assumes "check_results e pc repo (checks pc) g = Inr rs"
  shows "\<exists>st. check_mode e pc repo g = Inr (\<exists>r \<in> set rs. r \<noteq> None, st)
           \<and> problems_found st = length (filter (\<lambda>r. r \<noteq> None) rs)
           \<and> checks_run st = length rs"
proof -
  from assms have "check_results e pc repo (checks pc) (gw (initial_state g)) = Inr rs"
    by (simp add: initial_state_def)
  from check_loop_results [OF this] obtain st' where
    loop: "check_loop e pc repo (checks pc) (initial_state g) = Inr st'"
    and found: "problems_found st' = length (filter (\<lambda>r. r \<noteq> None) rs)"
    and ran: "checks_run st' = length rs"
    by (auto simp: initial_state_def)
  have "(0 < length (filter (\<lambda>r. r \<noteq> None) rs)) = (\<exists>r \<in> set rs. r \<noteq> None)"
    by (simp add: filter_empty_conv)
  with loop found ran show ?thesis
    by (simp add: check_mode_def)
qed

lemma tests_check_command:
  "check_mode MockFilesystem mock_precommit mock_repository empty_gateway
     = Inr (True,
        \<lparr>checks_run = 4, fixable_checks_run = 0, problems_found = 3, problems_fixable = 2,
         problems_fixed = 0,
         report = [''o--[ DoNotSubmit ]'', ''|  ignoreme.py'', ''|  main.py'', ''o--[ failed! ]'', [],
                   ''o--[ NoStagedAndUnstagedChanges ]'', ''|  main.py'', ''o--[ failed! ]'', [],
                   ''o--[ NoWhitespaceInFilePath ]'', ''o--[ passed! ]'', [],
                   ''o--[ PythonFormat ]'', ''|  <failed output of black command>'',
                   ''o--[ failed! ]'', [], [],
                   ''Ran 4 checks. Detected 3 issues. Fix 2 of them with '' @ [QUOTE]
                     @ ''precommit fix'' @ [QUOTE] @ ''.''],
         gw = \<lparr>events = [Ran ByCheck [''black'', ''--check'', ''main.py'']], printed = []\<rparr>\<rparr>)"
  by code_simp

lemma exit_status_loaded:
  "precommit_py sys = Registers cs \<longrightarrow>
     (\<forall>rs. check_results (world sys) (from_args cs a) (view sys) cs empty_gateway = Inr rs \<longrightarrow>
        (\<exists>st. engine (main_check sys a) = Some st
           \<and> problems_found st = length (filter (\<lambda>r. r \<noteq> None) rs)
           \<and> exit_status (main_check sys a) = (if problems_found st > 0 then 1 else 0))
        \<and> ((\<forall>r \<in> set rs. r = None) \<longrightarrow> exit_status (main_check sys a) = 0))
   \<and> (\<forall>final. fix_mode (world sys) (from_args cs a) (view sys) empty_gateway = Inr final \<longrightarrow>
        exit_status (main_fix sys a) = 0 \<and> engine (main_fix sys a) = Some final)
   \<and> (exit_status (main_fix sys a) \<noteq> 0 \<longrightarrow>
        (\<exists>err. fix_mode (world sys) (from_args cs a) (view sys) empty_gateway = Inl err))"
proof (intro impI conjI allI)
  fix rs
  assume cfg: "precommit_py sys = Registers cs"
    and res: "check_results (world sys) (from_args cs a) (view sys) cs empty_gateway = Inr rs"
  have cs: "checks (from_args cs a) = cs"
    by (simp add: from_args_def)
  from res cs have "check_results (world sys) (from_args cs a) (view sys) (checks (from_args cs a))
      empty_gateway = Inr rs"
    by simp
  from check_mode_results [OF this] obtain st where
    mode: "check_mode (world sys) (from_args cs a) (view sys) empty_gateway
             = Inr (\<exists>r \<in> set rs. r \<noteq> None, st)"
    and found: "problems_found st = length (filter (\<lambda>r. r \<noteq> None) rs)"
    by blast
  have pos: "(problems_found st > 0) = (\<exists>r \<in> set rs. r \<noteq> None)"
    using found by (simp add: filter_empty_conv)
  from cfg mode have out: "main_check sys a =
      (if \<exists>r \<in> set rs. r \<noteq> None then (finished (Some st))\<lparr>exit_status := 1\<rparr> else finished (Some st))"
    by (simp add: main_check_def get_precommit_def)
  show "\<exists>st. engine (main_check sys a) = Some st
           \<and> problems_found st = length (filter (\<lambda>r. r \<noteq> None) rs)
           \<and> exit_status (main_check sys a) = (if problems_found st > 0 then 1 else 0)"
    using out found pos by (auto simp: finished_def)
  show "exit_status (main_check sys a) = 0" if "\<forall>r \<in> set rs. r = None"
    using out that by (auto simp: finished_def)
next
  fix final
  assume cfg: "precommit_py sys = Registers cs"
    and run: "fix_mode (world sys) (from_args cs a) (view sys) empty_gateway = Inr final"
  then have out: "main_fix sys a = finished (Some final)"
    by (simp add: main_fix_def get_precommit_def)
  show "exit_status (main_fix sys a) = 0"
    using out by (simp add: finished_def)
  show "engine (main_fix sys a) = Some final"
    using out by (simp add: finished_def)
next
  assume cfg: "precommit_py sys = Registers cs"
    and bad: "exit_status (main_fix sys a) \<noteq> 0"
  show "\<exists>err. fix_mode (world sys) (from_args cs a) (view sys) empty_gateway = Inl err"
  proof (cases "fix_mode (world sys) (from_args cs a) (view sys) empty_gateway")
    case (Inl err)
    then show ?thesis by blast
  next
    case (Inr final)
    with cfg have "main_fix sys a = finished (Some final)"
      by (simp add: main_fix_def get_precommit_def)
    with bad show ?thesis by (simp add: finished_def)
  qed
qed

lemma main_dispatch:
  assumes "handle_args argv = Inr a" and "chdir_to_git_root sys = None"
    and "subcommand a \<noteq> ''help''" and "\<not> flag a ''--help''"
  shows "subcommand a = ''fix'' \<Longrightarrow> main argv sys = main_fix sys a"
    and "subcommand a = ''check'' \<Longrightarrow> main argv sys = main_check sys a"
  using assms by (simp_all add: main_def)

lemma main_fix_nonzero:
  assumes bad: "exit_status (main_fix sys a) \<noteq> 0"
  shows "precommit_py sys = Missing \<or> (\<exists>err. precommit_py sys = InitRaises err)
        \<or> (\<exists>cs' err. precommit_py sys = Registers cs'
              \<and> fix_mode (world sys) (from_args cs' a) (view sys) empty_gateway = Inl err)"
proof (cases "precommit_py sys")
  case Missing
  then show ?thesis by simp
next
  case (InitRaises err)
  then show ?thesis by simp
next
  case (Registers cs')
  show ?thesis
  proof (cases "fix_mode (world sys) (from_args cs' a) (view sys) empty_gateway")
    case (Inl err)
    with Registers show ?thesis by simp
  next
    case (Inr final)
    with Registers have "main_fix sys a = finished (Some final)"
      by (simp add: main_fix_def get_precommit_def)
    with bad show ?thesis by (simp add: finished_def)
  qed
qed

lemma parse_sub_all:
  "parse_args [''fix'', ''--all''] [''fix'', ''--all''] = all_args ''fix''"
  "parse_args [''check'', ''--all''] [''check'', ''--all''] = all_args ''check''"
  "parse_args [''fix''] [''fix''] = \<lparr>subcommand = ''fix'', positional = [], flags = []\<rparr>"
  "parse_args [''check''] [''check''] = \<lparr>subcommand = ''check'', positional = [], flags = []\<rparr>"
  by (simp_all add: parse_args_def all_args_def SHORT_FLAGS_def dict_set_def)

lemma mock_invocation:
  "handle_args [''fix'', ''--all''] = Inr (all_args ''fix'')"
  "handle_args [''check'', ''--all''] = Inr (all_args ''check'')"
  "handle_args [''fix''] = Inr \<lparr>subcommand = ''fix'', positional = [], flags = []\<rparr>"
  "handle_args [''check''] = Inr \<lparr>subcommand = ''check'', positional = [], flags = []\<rparr>"
  unfolding handle_args_def parse_sub_all
  by (simp_all add: all_args_def check_args_def SUBCOMMANDS_def FLAGS_def)

lemma mock_git_root: "chdir_to_git_root (mock_system\<lparr>precommit_py := c\<rparr>) = None"
  by (simp add: chdir_to_git_root_def mock_system_def NL_def)

lemma mock_git_root_plain: "chdir_to_git_root mock_system = None"
  by (simp add: chdir_to_git_root_def mock_system_def NL_def)

text \<open>
  C3. For a well-formed invocation inside a git repository that does not ask for help: when
  \<^verbatim>\<open>precommit.py\<close> loads and no Check raises, the \<open>check\<close> subcommand exits with status 0 if
  no executed Check reports a Problem and with status 1 if \<open>problems_found\<close> is positive; when
  \<^verbatim>\<open>precommit.py\<close> loads and the run ends without an exception, the \<open>fix\<close> subcommand exits
  with status 0 whatever was detected or fixed. The \<open>fix\<close> subcommand exits with another
  status only when \<^verbatim>\<open>precommit.py\<close> cannot be found, its \<open>init\<close> raises, or the run raises;
  a missing \<^verbatim>\<open>precommit.py\<close> ends either subcommand with the error message and status 1.
\<close>

theorem exit_status_spec:
  "handle_args argv = Inr a \<and> chdir_to_git_root sys = None
     \<and> subcommand a \<noteq> ''help'' \<and> \<not> flag a ''--help'' \<longrightarrow>
     (subcommand a = ''check'' \<and> precommit_py sys = Registers cs \<longrightarrow>
        (\<forall>rs. check_results (world sys) (from_args cs a) (view sys) cs empty_gateway = Inr rs \<longrightarrow>
           (\<exists>st. engine (main argv sys) = Some st
              \<and> problems_found st = length (filter (\<lambda>r. r \<noteq> None) rs)
              \<and> exit_status (main argv sys) = (if problems_found st > 0 then 1 else 0))
           \<and> ((\<forall>r \<in> set rs. r = None) \<longrightarrow> exit_status (main argv sys) = 0)))
   \<and> (subcommand a = ''fix'' \<and> precommit_py sys = Registers cs \<longrightarrow>
        (\<forall>final. fix_mode (world sys) (from_args cs a) (view sys) empty_gateway = Inr final \<longrightarrow>
           exit_status (main argv sys) = 0 \<and> engine (main argv sys) = Some final))
   \<and> (subcommand a = ''fix'' \<and> exit_status (main argv sys) \<noteq> 0 \<longrightarrow>
        precommit_py sys = Missing \<or> (\<exists>err. precommit_py sys = InitRaises err)
        \<or> (\<exists>cs' err. precommit_py sys = Registers cs'
              \<and> fix_mode (world sys) (from_args cs' a) (view sys) empty_gateway = Inl err))
   \<and> ((subcommand a = ''fix'' \<or> subcommand a = ''check'') \<and> precommit_py sys = Missing \<longrightarrow>
        main argv sys
          = \<lparr>exit_status = 1, stderr = [''Error: '' @ missing_message], config_loaded = False,
             written = [], engine = None\<rparr>)"
proof (intro impI conjI allI)
  fix rs
  assume h: "handle_args argv = Inr a \<and> chdir_to_git_root sys = None
     \<and> subcommand a \<noteq> ''help'' \<and> \<not> flag a ''--help''"
    and c: "subcommand a = ''check'' \<and> precommit_py sys = Registers cs"
    and r: "check_results (world sys) (from_args cs a) (view sys) cs empty_gateway = Inr rs"
  from h c have m: "main argv sys = main_check sys a"
    by (simp add: main_def)
  from c have cfg: "precommit_py sys = Registers cs" by simp
  note loaded = exit_status_loaded [of sys cs a, THEN mp, OF cfg, THEN conjunct1, THEN spec,
      THEN mp, OF r]
  show "\<exists>st. engine (main argv sys) = Some st
              \<and> problems_found st = length (filter (\<lambda>r. r \<noteq> None) rs)
              \<and> exit_status (main argv sys) = (if problems_found st > 0 then 1 else 0)"
    unfolding m using loaded by (rule conjunct1)
  show "exit_status (main argv sys) = 0" if "\<forall>r \<in> set rs. r = None"
    unfolding m using loaded [THEN conjunct2] that by (rule mp)
next
  fix final
  assume h: "handle_args argv = Inr a \<and> chdir_to_git_root sys = None
     \<and> subcommand a \<noteq> ''help'' \<and> \<not> flag a ''--help''"
    and c: "subcommand a = ''fix'' \<and> precommit_py sys = Registers cs"
    and r: "fix_mode (world sys) (from_args cs a) (view sys) empty_gateway = Inr final"
  from h c have m: "main argv sys = main_fix sys a"
    by (simp add: main_def)
  from c have cfg: "precommit_py sys = Registers cs" by simp
  note loaded = exit_status_loaded [of sys cs a, THEN mp, OF cfg, THEN conjunct2, THEN conjunct1,
      THEN spec, THEN mp, OF r]
  show "exit_status (main argv sys) = 0"
    unfolding m using loaded by (rule conjunct1)
  show "engine (main argv sys) = Some final"
    unfolding m using loaded by (rule conjunct2)
next
  assume h: "handle_args argv = Inr a \<and> chdir_to_git_root sys = None
     \<and> subcommand a \<noteq> ''help'' \<and> \<not> flag a ''--help''"
    and c: "subcommand a = ''fix'' \<and> exit_status (main argv sys) \<noteq> 0"
  from h c have m: "main argv sys = main_fix sys a"
    by (simp add: main_def)
  with c have "exit_status (main_fix sys a) \<noteq> 0" by simp
  then show "precommit_py sys = Missing \<or> (\<exists>err. precommit_py sys = InitRaises err)
        \<or> (\<exists>cs' err. precommit_py sys = Registers cs'
              \<and> fix_mode (world sys) (from_args cs' a) (view sys) empty_gateway = Inl err)"
    by (rule main_fix_nonzero)
next
  assume h: "handle_args argv = Inr a \<and> chdir_to_git_root sys = None
     \<and> subcommand a \<noteq> ''help'' \<and> \<not> flag a ''--help''"
    and c: "(subcommand a = ''fix'' \<or> subcommand a = ''check'') \<and> precommit_py sys = Missing"
  from c have cfg: "precommit_py sys = Missing" by simp
  from c consider "subcommand a = ''fix''" | "subcommand a = ''check''" by blast
  then have "main argv sys = main_fix sys a \<or> main argv sys = main_check sys a"
  proof cases
    case 1
    with h show ?thesis by (simp add: main_def)
  next
    case 2
    with h show ?thesis by (simp add: main_def)
  qed
  moreover have "main_fix sys a = error_exit False missing_message"
    using cfg by (simp add: main_fix_def get_precommit_def missing_message_def)
  moreover have "main_check sys a = error_exit False missing_message"
    using cfg by (simp add: main_check_def get_precommit_def missing_message_def)
  ultimately have "main argv sys = error_exit False missing_message" by auto
  then show "main argv sys
          = \<lparr>exit_status = 1, stderr = [''Error: '' @ missing_message], config_loaded = False,
             written = [], engine = None\<rparr>"
    by (simp add: error_exit_def)
qed

theorem exit_status_spec_witness:
  "exit_status (main [''fix'', ''--all''] mock_system) = 0
   \<and> (\<exists>final. engine (main [''fix'', ''--all''] mock_system) = Some final
         \<and> problems_found final = 2 \<and> problems_fixed final = 2)
   \<and> exit_status (main [''check'', ''--all''] mock_system) = 1
   \<and> exit_status (main [''check'', ''--all''] (mock_system\<lparr>precommit_py := Registers whitespace_only\<rparr>)) = 0
   \<and> exit_status (main [''fix'', ''--all''] (mock_system\<lparr>precommit_py := Missing\<rparr>)) = 1"
proof -
  have pc: "from_args mock_checklist (all_args sub) = mock_precommit" for sub
    by (simp add: from_args_def all_args_def flag_def mock_precommit_def)
  have w: "world mock_system = MockFilesystem" and v: "view mock_system = mock_repository"
    by (simp_all add: mock_system_def)
  have hf: "handle_args [''fix'', ''--all''] = Inr (all_args ''fix'') \<and> chdir_to_git_root mock_system = None
     \<and> subcommand (all_args ''fix'') \<noteq> ''help'' \<and> \<not> flag (all_args ''fix'') ''--help''"
    by (simp add: mock_invocation mock_git_root_plain all_args_def flag_def)
  have hc: "handle_args [''check'', ''--all''] = Inr (all_args ''check'') \<and> chdir_to_git_root mock_system = None
     \<and> subcommand (all_args ''check'') \<noteq> ''help'' \<and> \<not> flag (all_args ''check'') ''--help''"
    by (simp add: mock_invocation mock_git_root_plain all_args_def flag_def)
  have cf: "subcommand (all_args ''fix'') = ''fix'' \<and> precommit_py mock_system = Registers mock_checklist"
    by (simp add: all_args_def mock_system_def)
  have cc: "subcommand (all_args ''check'') = ''check'' \<and> precommit_py mock_system = Registers mock_checklist"
    by (simp add: all_args_def mock_system_def)
  note fx = exit_status_spec [of "[''fix'', ''--all'']" "all_args ''fix''" mock_system mock_checklist,
      THEN mp, OF hf, THEN conjunct2, THEN conjunct1, THEN mp, OF cf, unfolded pc w v,
      THEN spec, THEN mp, OF tests_fix_command]
  from fx
  have f1: "exit_status (main [''fix'', ''--all''] mock_system) = 0"
    and f2: "\<exists>final. engine (main [''fix'', ''--all''] mock_system) = Some final
         \<and> problems_found final = 2 \<and> problems_fixed final = 2"
    by simp_all
  have results: "check_results MockFilesystem mock_precommit mock_repository mock_checklist empty_gateway
      = Inr [Some \<lparr>message = Some (''file contains '' @ [QUOTE] @ ''DO NOT SUBMIT'' @ [QUOTE]),
                    autofix = None\<rparr>,
             Some \<lparr>message = None, autofix = Some (FixCommand [''git'', ''add'', ''main.py''])\<rparr>,
             None,
             Some \<lparr>message = None, autofix = Some (FixCommand [''black'', ''main.py''])\<rparr>]"
    by code_simp
  note chk = exit_status_spec [of "[''check'', ''--all'']" "all_args ''check''" mock_system mock_checklist,
      THEN mp, OF hc, THEN conjunct1, THEN mp, OF cc, unfolded pc w v,
      THEN spec, THEN mp, OF results, THEN conjunct1]
  from chk have c1: "exit_status (main [''check'', ''--all''] mock_system) = 1"
    by (elim exE conjE) simp
  let ?clean = "mock_system\<lparr>precommit_py := Registers whitespace_only\<rparr>"
  have hcl: "handle_args [''check'', ''--all''] = Inr (all_args ''check'') \<and> chdir_to_git_root ?clean = None
     \<and> subcommand (all_args ''check'') \<noteq> ''help'' \<and> \<not> flag (all_args ''check'') ''--help''"
    by (simp add: mock_invocation mock_git_root all_args_def flag_def)
  have ccl: "subcommand (all_args ''check'') = ''check'' \<and> precommit_py ?clean = Registers whitespace_only"
    by (simp add: all_args_def)
  have results2: "check_results (world ?clean) (from_args whitespace_only (all_args ''check''))
      (view ?clean) whitespace_only empty_gateway = Inr [None]"
    by code_simp
  from exit_status_spec [of "[''check'', ''--all'']" "all_args ''check''" ?clean whitespace_only,
      THEN mp, OF hcl, THEN conjunct1, THEN mp, OF ccl, THEN spec, THEN mp, OF results2,
      THEN conjunct2]
  have c0: "exit_status (main [''check'', ''--all''] ?clean) = 0"
    by simp
  let ?missing = "mock_system\<lparr>precommit_py := Missing\<rparr>"
  have hm: "handle_args [''fix'', ''--all''] = Inr (all_args ''fix'') \<and> chdir_to_git_root ?missing = None
     \<and> subcommand (all_args ''fix'') \<noteq> ''help'' \<and> \<not> flag (all_args ''fix'') ''--help''"
    by (simp add: mock_invocation mock_git_root all_args_def flag_def)
  have cm: "(subcommand (all_args ''fix'') = ''fix'' \<or> subcommand (all_args ''fix'') = ''check'')
      \<and> precommit_py ?missing = Missing"
    by (simp add: all_args_def)
  from exit_status_spec [of "[''fix'', ''--all'']" "all_args ''fix''" ?missing mock_checklist,
      THEN mp, OF hm, THEN conjunct2, THEN conjunct2, THEN conjunct2, THEN mp, OF cm]
  have m1: "exit_status (main [''fix'', ''--all''] ?missing) = 1"
    by simp
  from f1 f2 c1 c0 m1 show ?thesis by blast
qed

theorem exit_status_counterexample:
  "main [''fix''] (mock_system\<lparr>precommit_py := Missing\<rparr>)
     = \<lparr>exit_status = 1, stderr = [''Error: '' @ missing_message], config_loaded = False,
        written = [], engine = None\<rparr>
   \<and> main [''check''] (mock_system\<lparr>precommit_py := Missing\<rparr>)
     = \<lparr>exit_status = 1, stderr = [''Error: '' @ missing_message], config_loaded = False,
        written = [], engine = None\<rparr>"
  unfolding main_def mock_invocation
  by (simp add: mock_git_root flag_def main_fix_def main_check_def get_precommit_def
      error_exit_def missing_message_def)

end
